theory Spec2Isabelle
  imports Main "HOL-Library.Multiset"
begin

section \<open>Instruction model (parser/instruction.h, parser/instruction.c)\<close>

text \<open>
  The enum \<open>InstructionType\<close> of instruction.h, in declaration order, and the enum
  \<open>InstructionParameter\<close>, whose ordinal selects a pair of slots in the parameter array.
\<close>

datatype InstructionType =
  KEY | PRESS | HOLD | RELEASE | START | STOP | SCRIPT | WINDOW
  | WAITLIST | ROUTINE | RANDOM | GROUP | NONE

datatype InstructionParameter = DURATION | BEFORE | AFTER | REPEAT | COOLDOWN

fun parameter_index :: "InstructionParameter \<Rightarrow> nat" where
  "parameter_index DURATION = 0"
| "parameter_index BEFORE = 1"
| "parameter_index AFTER = 2"
| "parameter_index REPEAT = 3"
| "parameter_index COOLDOWN = 4"

text \<open>
  Every failed \<open>assert(cond, msg)\<close> of the program prints its message and calls
  \<open>exit(EXIT_FAILURE)\<close> (main.c, built without \<open>DISABLE_ASSERTS\<close>). The model
  returns the failure as a value; one constructor per kind of assertion that the modelled
  functions contain.
\<close>

datatype error =
  DuplicateId          \<comment> \<open>instruction_map_insert: an instruction with the id exists\<close>
  | UnknownId          \<comment> \<open>an instruction_map_get result asserted non-NULL was NULL\<close>
  | InvalidIndex       \<comment> \<open>str_list_get_str: index outside 0..size-1\<close>
  | TypeIsNone         \<comment> \<open>instruction_execute: type is NONE\<close>
  | EmptyQueue         \<comment> \<open>peek or pop on a queue of size 0\<close>
  | QueueFull          \<comment> \<open>push on a queue at capacity\<close>
  | NotAGroup          \<comment> \<open>sub-instruction accessors: the type is not GROUP\<close>
  | NullList           \<comment> \<open>str_list_get_size on a NULL list\<close>
  | EmptyList          \<comment> \<open>try_handle_sub_instruction: no parsed instruction recorded\<close>
  | InvalidCapacity    \<comment> \<open>waitlist_new: capacity not positive\<close>
  | BufferOverflow     \<comment> \<open>sprintf past the end of the allocated alias buffer\<close>

text \<open>
  \<open>struct InstructionStruct\<close>. The id is a C string; \<open>parameters\<close> is the array of
  \<open>2 * NUM_INSTRUCTION_PARAMETERS\<close> ints (lower and upper bound of each parameter);
  \<open>sub_instructions\<close> is a pointer to a string list that is NULL until the first
  sub-instruction is added (\<open>None\<close> here). The hash handle is not modelled.
\<close>

record Instruction =
  instruction_id :: string
  indent_count :: int
  keycode :: nat
  parameters :: "int list"
  instruction_type :: InstructionType
  sub_instructions :: "string list option"
  line_number :: int

definition InstructionParameterDefaultValues :: "int list" where
  "InstructionParameterDefaultValues = [50, 70, 0, 0, 30, 50, 0, 0, 0, 0]"

text \<open>
  The instruction map is a hash table keyed by the id string (uthash); only lookup by key
  and insertion are used here, so it is a partial function from ids to instructions.
\<close>

type_synonym instruction_map = "string \<Rightarrow> Instruction option"

definition instruction_map_insert ::
  "instruction_map \<Rightarrow> Instruction \<Rightarrow> error + instruction_map" where
  "instruction_map_insert instructions instruction =
     (case instructions (instruction_id instruction) of
        Some current_instruction \<Rightarrow> Inl DuplicateId
      | None \<Rightarrow> Inr (instructions(instruction_id instruction \<mapsto> instruction)))"

definition instruction_map_get :: "instruction_map \<Rightarrow> string \<Rightarrow> Instruction option" where
  "instruction_map_get instructions ident = instructions ident"

fun instruction_type_is_definition :: "InstructionType \<Rightarrow> bool" where
  "instruction_type_is_definition KEY = True"
| "instruction_type_is_definition SCRIPT = True"
| "instruction_type_is_definition WINDOW = True"
| "instruction_type_is_definition WAITLIST = True"
| "instruction_type_is_definition ROUTINE = True"
| "instruction_type_is_definition GROUP = True"
| "instruction_type_is_definition _ = False"

definition instruction_can_define_inplace :: "InstructionType \<Rightarrow> bool" where
  "instruction_can_define_inplace t = (t = PRESS \<or> t = RELEASE \<or> t = HOLD)"

fun instruction_type_is_transaction :: "InstructionType \<Rightarrow> bool" where
  "instruction_type_is_transaction PRESS = True"
| "instruction_type_is_transaction HOLD = True"
| "instruction_type_is_transaction RELEASE = True"
| "instruction_type_is_transaction START = True"
| "instruction_type_is_transaction STOP = True"
| "instruction_type_is_transaction _ = False"

definition instruction_type_is_scheduler :: "InstructionType \<Rightarrow> bool" where
  "instruction_type_is_scheduler t = (t = ROUTINE \<or> t = WAITLIST \<or> t = RANDOM)"

definition instruction_get_parameter_lower_value ::
  "Instruction \<Rightarrow> InstructionParameter \<Rightarrow> int" where
  "instruction_get_parameter_lower_value instruction parameter =
     parameters instruction ! (2 * parameter_index parameter)"

definition instruction_get_parameter_upper_value ::
  "Instruction \<Rightarrow> InstructionParameter \<Rightarrow> int" where
  "instruction_get_parameter_upper_value instruction parameter =
     parameters instruction ! (2 * parameter_index parameter + 1)"

text \<open>
  \<open>instruction_add_sub_instruction\<close>: the list is created on first use, then the id is
  appended (\<open>str_list_insert_str\<close> stores the string at index \<open>size\<close> and increments
  \<open>size\<close>).
\<close>

definition instruction_add_sub_instruction :: "Instruction \<Rightarrow> string \<Rightarrow> Instruction" where
  "instruction_add_sub_instruction instruction sub_instruction_id =
     instruction\<lparr>sub_instructions :=
       Some ((case sub_instructions instruction of None \<Rightarrow> [] | Some l \<Rightarrow> l)
             @ [sub_instruction_id])\<rparr>"

text \<open>
  \<open>instruction_execute\<close>: after the assertion on the type the body is
  \<open>return false\<close>; nothing else is read or written.
\<close>

definition instruction_execute :: "Instruction \<Rightarrow> error + bool" where
  "instruction_execute instruction =
     (if instruction_type instruction = NONE then Inl TypeIsNone else Inr False)"

section \<open>String lists (utility/str_list.c)\<close>

text \<open>
  A \<open>StrList\<close> is a growable array of strings; the model is the list of its first
  \<open>size\<close> entries. \<open>str_list_get_str\<close> asserts that the (C int) index is in range.
\<close>

definition str_list_get_size :: "string list \<Rightarrow> int" where
  "str_list_get_size l = int (length l)"

definition str_list_get_str :: "string list \<Rightarrow> int \<Rightarrow> error + string" where
  "str_list_get_str l index =
     (if 0 \<le> index \<and> index < int (length l) then Inr (l ! nat index) else Inl InvalidIndex)"

definition str_list_insert_str :: "string list \<Rightarrow> string \<Rightarrow> string list" where
  "str_list_insert_str l str = l @ [str]"

section \<open>Timestamp min-heap (utility/str_timestamp_queue.c)\<close>

text \<open>
  \<open>TimestampNode\<close> and \<open>TimestampQueue\<close>. Timestamps are \<open>time_t\<close> values
  (milliseconds since the epoch, see \<open>get_current_time\<close>), modelled as integers;
  the queue only compares them, and the one addition, in the waitlist, is written with its
  64-bit range. The node array
  is modelled by the list of its initialised entries, indices \<open>0 .. size - 1\<close>, so
  that in a well-formed queue \<open>queue_size\<close> is the length of \<open>nodes\<close>. Sizes and
  indices are natural numbers: the C ints are never negative, and the child indices
  \<open>2 * i + 1\<close> and \<open>2 * i + 2\<close> of an index below the size stay in the range of
  int for every queue of fewer than \<open>2^30\<close> entries.
\<close>

record TimestampNode =
  timestamp :: int
  node_value :: string

record TimestampQueue =
  queue_size :: nat
  capacity :: nat
  is_using_shared_memory :: bool
  nodes :: "TimestampNode list"

definition str_timestamp_queue_new :: "nat \<Rightarrow> bool \<Rightarrow> TimestampQueue" where
  "str_timestamp_queue_new cap shared =
     \<lparr>queue_size = 0, capacity = cap, is_using_shared_memory = shared, nodes = []\<rparr>"

definition swap_nodes :: "TimestampNode list \<Rightarrow> nat \<Rightarrow> nat \<Rightarrow> TimestampNode list" where
  "swap_nodes ns a b = ns[a := ns ! b, b := ns ! a]"

function bubble_down :: "TimestampNode list \<Rightarrow> nat \<Rightarrow> nat \<Rightarrow> TimestampNode list" where
  "bubble_down ns n current_idx =
     (let left_child_idx = current_idx * 2 + 1;
          right_child_idx = current_idx * 2 + 2
      in if n \<le> left_child_idx then ns
         else
           let min_idx0 = current_idx;
               min_idx1 = (if timestamp (ns ! left_child_idx) < timestamp (ns ! min_idx0)
                           then left_child_idx else min_idx0);
               min_idx = (if right_child_idx < n
                             \<and> timestamp (ns ! right_child_idx) < timestamp (ns ! min_idx1)
                          then right_child_idx else min_idx1)
           in if min_idx \<noteq> current_idx
              then bubble_down (swap_nodes ns current_idx min_idx) n min_idx
              else ns)"
  by pat_completeness auto
termination
  by (relation "measure (\<lambda>(ns, n, i). n - i)") (auto split: if_splits)

function bubble_up :: "TimestampNode list \<Rightarrow> nat \<Rightarrow> nat \<Rightarrow> TimestampNode list" where
  "bubble_up ns n current_idx =
     (if current_idx = 0 then ns
      else
        let parent_idx = (current_idx - 1) div 2
        in if timestamp (ns ! current_idx) < timestamp (ns ! parent_idx)
           then bubble_up (swap_nodes ns current_idx parent_idx) n parent_idx
           else ns)"
  by pat_completeness auto
termination
  by (relation "measure (\<lambda>(ns, n, i). i)") auto

declare bubble_down.simps [simp del]
declare bubble_up.simps [simp del]

definition str_timestamp_queue_peek_value :: "TimestampQueue \<Rightarrow> error + string" where
  "str_timestamp_queue_peek_value q =
     (if queue_size q = 0 then Inl EmptyQueue else Inr (node_value (nodes q ! 0)))"

text \<open>
  \<open>str_timestamp_queue_can_pop\<close>. The clock reading \<open>get_current_time()\<close> is the
  first argument. The comparison is the source's: \<open>current_timestamp <= min_node->timestamp\<close>.
\<close>

definition str_timestamp_queue_can_pop :: "int \<Rightarrow> TimestampQueue \<Rightarrow> bool" where
  "str_timestamp_queue_can_pop current_timestamp q =
     (if queue_size q = 0 then False
      else current_timestamp \<le> timestamp (nodes q ! 0))"

definition str_timestamp_queue_pop ::
  "TimestampQueue \<Rightarrow> int \<Rightarrow> error + (string \<times> TimestampQueue)" where
  "str_timestamp_queue_pop q updated_timestamp =
     (if queue_size q = 0 then Inl EmptyQueue
      else
        let min_node = nodes q ! 0;
            min_value = node_value min_node;
            ns = (nodes q)[0 := min_node\<lparr>timestamp := updated_timestamp\<rparr>]
        in Inr (min_value, q\<lparr>nodes := bubble_down ns (queue_size q) 0\<rparr>))"

definition str_timestamp_queue_push ::
  "TimestampQueue \<Rightarrow> int \<Rightarrow> string \<Rightarrow> error + TimestampQueue" where
  "str_timestamp_queue_push q ts v =
     (let n = queue_size q
      in if capacity q \<le> n then Inl QueueFull
         else
           let new_node = \<lparr>timestamp = ts, node_value = v\<rparr>;
               ns = take n (nodes q) @ [new_node]
           in Inr (q\<lparr>nodes := bubble_up ns n n, queue_size := n + 1\<rparr>))"


text \<open>
  Heap order, as \<open>bubble_up\<close> reads it: every entry other than the root is compared
  with its parent, the entry at index \<open>(c - 1) / 2\<close>.
\<close>

definition is_heap :: "TimestampNode list \<Rightarrow> nat \<Rightarrow> bool" where
  "is_heap ns n =
     list_all (\<lambda>c. timestamp (ns ! ((c - 1) div 2)) \<le> timestamp (ns ! c)) [1..<n]"

text \<open>The same order read from the parent, and the order with one index exempted.\<close>

definition heap_ok :: "TimestampNode list \<Rightarrow> nat \<Rightarrow> bool" where
  "heap_ok ns n = (\<forall>p c. c < n \<longrightarrow> (c = 2 * p + 1 \<or> c = 2 * p + 2) \<longrightarrow>
       timestamp (ns ! p) \<le> timestamp (ns ! c))"

definition heap_except :: "TimestampNode list \<Rightarrow> nat \<Rightarrow> nat \<Rightarrow> bool" where
  "heap_except ns n k =
     ((\<forall>p c. c < n \<longrightarrow> p \<noteq> k \<longrightarrow> (c = 2 * p + 1 \<or> c = 2 * p + 2) \<longrightarrow>
          timestamp (ns ! p) \<le> timestamp (ns ! c))
    \<and> (\<forall>p c. c < n \<longrightarrow> (k = 2 * p + 1 \<or> k = 2 * p + 2) \<longrightarrow>
          (c = 2 * k + 1 \<or> c = 2 * k + 2) \<longrightarrow>
          timestamp (ns ! p) \<le> timestamp (ns ! c)))"

text \<open>The index \<open>min_idx\<close> that one call of \<open>bubble_down\<close> computes.\<close>

definition min_child :: "TimestampNode list \<Rightarrow> nat \<Rightarrow> nat \<Rightarrow> nat" where
  "min_child ns n k =
     (let m1 = (if timestamp (ns ! (k * 2 + 1)) < timestamp (ns ! k) then k * 2 + 1 else k)
      in if k * 2 + 2 < n \<and> timestamp (ns ! (k * 2 + 2)) < timestamp (ns ! m1)
         then k * 2 + 2 else m1)"

section \<open>Routine scheduler (scheduler/routine.c)\<close>

text \<open>
  \<open>struct RoutineStruct\<close>: the id list, the cursor \<open>current_idx\<close> and the bound
  \<open>bound_idx\<close> (\<open>-1\<close> when no bound is set). Both indices are C ints; the cursor stays
  below the list size, so no arithmetic on them overflows. The back pointer to the defining
  instruction and the hash handle are not modelled.
\<close>

record Routine =
  routine_id :: string
  instruction_ids :: "string list"
  current_idx :: int
  bound_idx :: int

definition routine_insert_instruction :: "Routine \<Rightarrow> Instruction \<Rightarrow> Routine" where
  "routine_insert_instruction routine instruction =
     (let ids = str_list_insert_str (instruction_ids routine) (instruction_id instruction);
          r1 = routine\<lparr>instruction_ids := ids\<rparr>
      in if bound_idx r1 = - 1 then r1\<lparr>bound_idx := str_list_get_size ids\<rparr> else r1)"

text \<open>
  \<open>routine_execute_\<close> of the source (a constant name cannot end in an underscore,
  hence \<open>routine_execute_one\<close>): one tick of one routine. The child is executed through the first
  argument: the program passes \<open>instruction_execute\<close>, and the scheduler's own logic is
  stated for any executor that returns ready or not-ready.
\<close>

definition routine_execute_one ::
  "(Instruction \<Rightarrow> error + bool) \<Rightarrow> instruction_map \<Rightarrow> Routine \<Rightarrow> error + Routine" where
  "routine_execute_one execute instructions routine =
     (case str_list_get_str (instruction_ids routine) (current_idx routine) of
        Inl e \<Rightarrow> Inl e
      | Inr ident \<Rightarrow>
         (case instruction_map_get instructions ident of
            None \<Rightarrow> Inl UnknownId
          | Some instruction \<Rightarrow>
             (case execute instruction of
                Inl e \<Rightarrow> Inl e
              | Inr ready \<Rightarrow>
                 if ready = False then Inr routine
                 else
                   let r1 = routine\<lparr>current_idx := current_idx routine + 1\<rparr>
                   in if 0 \<le> bound_idx r1 \<and> bound_idx r1 \<le> current_idx r1
                      then Inr (r1\<lparr>current_idx := 0, bound_idx := - 1\<rparr>)
                      else if str_list_get_size (instruction_ids r1) \<le> current_idx r1
                           then Inr (r1\<lparr>current_idx := 0\<rparr>)
                           else Inr r1)))"

text \<open>A run of ticks of one routine; it stops at the first failed assertion.\<close>

fun routine_ticks ::
  "(Instruction \<Rightarrow> error + bool) \<Rightarrow> instruction_map \<Rightarrow> nat \<Rightarrow> Routine \<Rightarrow> error + Routine" where
  "routine_ticks execute instructions 0 routine = Inr routine"
| "routine_ticks execute instructions (Suc k) routine =
     (case routine_execute_one execute instructions routine of
        Inl e \<Rightarrow> Inl e
      | Inr r1 \<Rightarrow> routine_ticks execute instructions k r1)"

section \<open>Waitlist scheduler (scheduler/waitlist.c)\<close>

record Waitlist =
  waitlist_id :: string
  queue :: TimestampQueue

definition instruction_get_num_sub_instructions :: "Instruction \<Rightarrow> error + int" where
  "instruction_get_num_sub_instructions instruction =
     (if instruction_type instruction \<noteq> GROUP then Inl NotAGroup
      else case sub_instructions instruction of
             None \<Rightarrow> Inl NullList
           | Some l \<Rightarrow> Inr (str_list_get_size l))"

fun push_all :: "TimestampQueue \<Rightarrow> string list \<Rightarrow> error + TimestampQueue" where
  "push_all q [] = Inr q"
| "push_all q (sub_instruction_id # rest) =
     (case str_timestamp_queue_push q 0 sub_instruction_id of
        Inl e \<Rightarrow> Inl e
      | Inr q1 \<Rightarrow> push_all q1 rest)"

text \<open>
  \<open>waitlist_new\<close>: every sub-instruction id of the instruction is pushed with timestamp
  \<open>0\<close>. The count is read with \<open>instruction_get_num_sub_instructions\<close>, whose
  assertion requires the type GROUP.
\<close>

definition waitlist_new :: "Instruction \<Rightarrow> int \<Rightarrow> error + Waitlist" where
  "waitlist_new instruction cap =
     (if cap \<le> 0 then Inl InvalidCapacity
      else case instruction_get_num_sub_instructions instruction of
             Inl e \<Rightarrow> Inl e
           | Inr num_sub_instructions \<Rightarrow>
              (case push_all (str_timestamp_queue_new (nat cap) False)
                      (case sub_instructions instruction of None \<Rightarrow> [] | Some l \<Rightarrow> l) of
                 Inl e \<Rightarrow> Inl e
               | Inr q \<Rightarrow> Inr \<lparr>waitlist_id = instruction_id instruction, queue = q\<rparr>))"

definition waitlist_insert_instruction :: "Waitlist \<Rightarrow> Waitlist \<Rightarrow> error + Waitlist" where
  "waitlist_insert_instruction waitlist instruction =
     (case str_timestamp_queue_push (queue waitlist) 0 (waitlist_id instruction) of
        Inl e \<Rightarrow> Inl e
      | Inr q \<Rightarrow> Inr (waitlist\<lparr>queue := q\<rparr>))"

text \<open>
  Addition of two \<open>time_t\<close> values, a signed integer type of 64 bits: the sum is
  reduced to the range \<open>-2^63 .. 2^63 - 1\<close>.
\<close>

definition time_t_add :: "int \<Rightarrow> int \<Rightarrow> int" where
  "time_t_add a b = (a + b + 2 ^ 63) mod 2 ^ 64 - 2 ^ 63"

text \<open>
  The \<open>while\<close> loop of \<open>waitlist_execute\<close> for one waitlist. Every call of
  \<open>get_current_time()\<close> takes the next reading from the list \<open>clock\<close>: one in
  \<open>str_timestamp_queue_can_pop\<close>, which reads the clock only when the queue is not
  empty, and one for the new timestamp of the popped child. The loop need not end;
  \<open>None\<close> is a loop still running when the readings are used up. The list \<open>fired\<close>
  records, in order, the ids handed to \<open>instruction_execute\<close>.
\<close>

fun waitlist_execute_loop ::
  "instruction_map \<Rightarrow> int list \<Rightarrow> TimestampQueue \<Rightarrow> string list
   \<Rightarrow> (error + TimestampQueue \<times> string list) option" where
  "waitlist_execute_loop imap clock q fired =
     (if queue_size q = 0 then Some (Inr (q, fired))
      else
        case clock of
          [] \<Rightarrow> None
        | current_timestamp # clock1 \<Rightarrow>
           if \<not> str_timestamp_queue_can_pop current_timestamp q then Some (Inr (q, fired))
           else
             (case str_timestamp_queue_peek_value q of
                Inl e \<Rightarrow> Some (Inl e)
              | Inr ident \<Rightarrow>
                 (case instruction_map_get imap ident of
                    None \<Rightarrow> Some (Inl UnknownId)
                  | Some instruction \<Rightarrow>
                     (case clock1 of
                        [] \<Rightarrow> None
                      | reading # clock2 \<Rightarrow>
                         (let cooldown =
                                instruction_get_parameter_lower_value instruction COOLDOWN;
                              updated_timestamp = time_t_add reading cooldown
                          in (case str_timestamp_queue_pop q updated_timestamp of
                                Inl e \<Rightarrow> Some (Inl e)
                              | Inr (v, q1) \<Rightarrow>
                                 (case instruction_execute instruction of
                                    Inl e \<Rightarrow> Some (Inl e)
                                  | Inr ready \<Rightarrow>
                                     waitlist_execute_loop imap clock2 q1
                                       (fired @ [ident]))))))))"

declare waitlist_execute_loop.simps [simp del]

section \<open>Runtime preparation (runtime.c)\<close>

text \<open>
  The state that \<open>runtime_prepare\<close> builds: the instruction map, the record
  \<open>all_instructions\<close> of every parsed id in source order, and the execution list.
\<close>

record runtime =
  instructions :: instruction_map
  all_instructions :: "string list"
  execution_list :: "string list"

text \<open>
  The \<open>for\<close> loop of \<open>try_handle_sub_instruction\<close>, from the last recorded id to the
  first (the argument is the recorded list reversed). The first recorded instruction with a
  smaller indent receives the current id as a sub-instruction and the result is true; when
  the loop runs out the result is false.
\<close>

fun try_handle_sub_instruction_loop ::
  "instruction_map \<Rightarrow> Instruction \<Rightarrow> string list \<Rightarrow> error + (bool \<times> instruction_map)" where
  "try_handle_sub_instruction_loop imap instruction [] = Inr (False, imap)"
| "try_handle_sub_instruction_loop imap instruction (str_ref_instruction_id # older) =
     (case instruction_map_get imap str_ref_instruction_id of
        None \<Rightarrow> Inl UnknownId
      | Some ref_instruction \<Rightarrow>
         if indent_count ref_instruction < indent_count instruction
         then Inr (True, imap(str_ref_instruction_id \<mapsto>
                 instruction_add_sub_instruction ref_instruction (instruction_id instruction)))
         else try_handle_sub_instruction_loop imap instruction older)"

definition try_handle_sub_instruction ::
  "instruction_map \<Rightarrow> Instruction \<Rightarrow> string list \<Rightarrow> error + (bool \<times> instruction_map)" where
  "try_handle_sub_instruction imap instruction all_ids =
     (let is_sub_instruction = (0 < indent_count instruction)
      in if is_sub_instruction = False then Inr (False, imap)
         else if \<not> 0 < str_list_get_size all_ids then Inl EmptyList
         else try_handle_sub_instruction_loop imap instruction (rev all_ids))"

text \<open>
  The \<open>while\<close> loop of \<open>runtime_prepare\<close>. Reading the file and
  \<open>parse_line_into_instruction\<close> (parser.c) are outside the model: the loop runs over
  the instructions that the parser delivered, one per line read, in source order; a line
  that yields no instruction has type \<open>NONE\<close>.
\<close>

fun runtime_prepare_loop :: "runtime \<Rightarrow> Instruction list \<Rightarrow> error + runtime" where
  "runtime_prepare_loop st [] = Inr st"
| "runtime_prepare_loop st (instruction # rest) =
     (if instruction_type instruction = NONE then runtime_prepare_loop st rest
      else
        case instruction_map_insert (instructions st) instruction of
          Inl e \<Rightarrow> Inl e
        | Inr imap1 \<Rightarrow>
           (let all1 = str_list_insert_str (all_instructions st) (instruction_id instruction)
            in (case try_handle_sub_instruction imap1 instruction all1 of
                  Inl e \<Rightarrow> Inl e
                | Inr (is_sub_instruction, imap2) \<Rightarrow>
                   if is_sub_instruction = True
                   then runtime_prepare_loop
                          (st\<lparr>instructions := imap2, all_instructions := all1\<rparr>) rest
                   else if instruction_type_is_transaction (instruction_type instruction) = True
                   then runtime_prepare_loop
                          (st\<lparr>instructions := imap2, all_instructions := all1,
                              execution_list :=
                                str_list_insert_str (execution_list st)
                                  (instruction_id instruction)\<rparr>) rest
                   else runtime_prepare_loop
                          (st\<lparr>instructions := imap2, all_instructions := all1\<rparr>) rest)))"

definition runtime_prepare :: "Instruction list \<Rightarrow> error + runtime" where
  "runtime_prepare parsed =
     runtime_prepare_loop
       \<lparr>instructions = Map.empty, all_instructions = [], execution_list = []\<rparr> parsed"

section \<open>Alias generation (parser/instruction.c)\<close>

definition instruction_alias_prefix :: string where
  "instruction_alias_prefix = ''Alias_''"

text \<open>
  The conversion \<open>%02d\<close> of \<open>sprintf\<close>: the decimal digits of the value, a minus sign
  in front of a negative one, and zeros on the left up to a width of two characters.
\<close>

definition digit_char :: "nat \<Rightarrow> char" where
  "digit_char d = ''0123456789'' ! d"

function decimal :: "nat \<Rightarrow> string" where
  "decimal n = (if n < 10 then [digit_char n] else decimal (n div 10) @ [digit_char (n mod 10)])"
  by pat_completeness auto
termination
  by (relation "measure (\<lambda>n. n)") auto

declare decimal.simps [simp del]

definition format_02d :: "int \<Rightarrow> string" where
  "format_02d v =
     (if v < 0 then CHR ''-'' # decimal (nat (- v))
      else replicate (2 - length (decimal (nat v))) CHR ''0'' @ decimal (nat v))"

text \<open>
  \<open>instruction_map_generate_alias\<close>. The static counter is passed in and returned. The
  buffer holds \<open>strlen(prefix) + strlen(original_id) + 10\<close> characters, and
  \<open>sprintf\<close> writes the text and a terminating NUL; a text that does not fit is
  written past the end of the buffer (undefined behaviour in C; a build may return the
  text all the same), which the model reports as \<open>BufferOverflow\<close>.
\<close>

definition instruction_map_generate_alias :: "int \<Rightarrow> string \<Rightarrow> error + (string \<times> int)" where
  "instruction_map_generate_alias instruction_alias_counter original_id =
     (let alias_len = length instruction_alias_prefix + length original_id + 10;
          alias = instruction_alias_prefix @ format_02d instruction_alias_counter
                  @ ''('' @ original_id @ '')''
      in if alias_len < length alias + 1 then Inl BufferOverflow
         else Inr (alias, instruction_alias_counter + 1))"

text \<open>
  The regular expression of the specification, \<open>Alias_[0-9]{2,}\(.+\)\<close>, matched against
  a whole string: the prefix, two or more digits (the run of digits ends at the
  parenthesis, which is no digit), an opening parenthesis, one or more characters other
  than a line break, and a closing parenthesis at the end.
\<close>

definition is_digit :: "char \<Rightarrow> bool" where
  "is_digit c = (c \<in> set ''0123456789'')"

definition spec_alias_regex :: "string \<Rightarrow> bool" where
  "spec_alias_regex s =
     (take 6 s = ''Alias_''
      \<and> (let rest = drop 6 s;
              ds = takeWhile is_digit rest;
              tail = dropWhile is_digit rest
          in 2 \<le> length ds
             \<and> take 1 tail = ''(''
             \<and> 3 \<le> length tail
             \<and> last tail = CHR '')''
             \<and> CHR 0x0A \<notin> set (butlast (drop 1 tail))))"


section \<open>Example inputs and notions used in the proofs\<close>

text \<open>A heap of three entries with timestamps 1, 5 and 3.\<close>

definition example_queue :: TimestampQueue where
  "example_queue =
     \<lparr>queue_size = 3, capacity = 3, is_using_shared_memory = False,
      nodes = [\<lparr>timestamp = 1, node_value = ''a''\<rparr>,
               \<lparr>timestamp = 5, node_value = ''b''\<rparr>,
               \<lparr>timestamp = 3, node_value = ''c''\<rparr>]\<rparr>"

text \<open>
  A queue holding the single child \<open>x\<close> with timestamp 0, as \<open>waitlist_new\<close> and
  \<open>waitlist_insert_instruction\<close> push it, and the same child not yet due.
\<close>

definition due_queue :: TimestampQueue where
  "due_queue =
     \<lparr>queue_size = 1, capacity = 1, is_using_shared_memory = False,
      nodes = [\<lparr>timestamp = 0, node_value = ''x''\<rparr>]\<rparr>"

definition future_queue :: TimestampQueue where
  "future_queue =
     \<lparr>queue_size = 1, capacity = 1, is_using_shared_memory = False,
      nodes = [\<lparr>timestamp = 10, node_value = ''x''\<rparr>]\<rparr>"

text \<open>The instruction \<open>key x with cooldown 100\<close>, and a table that holds it.\<close>

definition cooldown_key :: Instruction where
  "cooldown_key =
     \<lparr>instruction_id = ''x'', indent_count = 0, keycode = 0,
      parameters = [50, 70, 0, 0, 30, 50, 0, 0, 100, 100],
      instruction_type = KEY, sub_instructions = None, line_number = 1\<rparr>"

definition cooldown_table :: instruction_map where
  "cooldown_table = [''x'' \<mapsto> cooldown_key]"

text \<open>
  Parsed lines: \<open>press a\<close> indented by four columns, \<open>press b\<close> at indent 0.
\<close>

definition orphan_press :: Instruction where
  "orphan_press =
     \<lparr>instruction_id = ''a'', indent_count = 4, keycode = 0,
      parameters = InstructionParameterDefaultValues,
      instruction_type = PRESS, sub_instructions = None, line_number = 1\<rparr>"

definition top_press :: Instruction where
  "top_press =
     \<lparr>instruction_id = ''b'', indent_count = 0, keycode = 0,
      parameters = InstructionParameterDefaultValues,
      instruction_type = PRESS, sub_instructions = None, line_number = 2\<rparr>"

text \<open>
  A routine over the children \<open>x, x\<close> at the start of a cycle, an executor that always
  reports ready, and the instruction \<open>key y\<close> to be inserted.
\<close>

definition example_routine :: Routine where
  "example_routine =
     \<lparr>routine_id = ''r'', instruction_ids = [''x'', ''x''], current_idx = 0, bound_idx = - 1\<rparr>"

definition always_ready :: "Instruction \<Rightarrow> error + bool" where
  "always_ready instruction = Inr True"

definition second_key :: Instruction where
  "second_key =
     \<lparr>instruction_id = ''y'', indent_count = 0, keycode = 0,
      parameters = InstructionParameterDefaultValues,
      instruction_type = KEY, sub_instructions = None, line_number = 2\<rparr>"

definition two_key_table :: instruction_map where
  "two_key_table = [''x'' \<mapsto> cooldown_key, ''y'' \<mapsto> second_key]"

text \<open>The same routine with the cursor at its second child.\<close>

definition mid_routine :: Routine where
  "mid_routine =
     \<lparr>routine_id = ''r'', instruction_ids = [''x'', ''x''], current_idx = 1, bound_idx = - 1\<rparr>"

text \<open>
  The value of a string of decimal digits, used to tell two renderings of the alias
  counter apart.
\<close>

definition digit_value :: "char \<Rightarrow> nat" where
  "digit_value c = length (takeWhile (\<lambda>d. d \<noteq> c) ''0123456789'')"

definition digits_value :: "string \<Rightarrow> nat" where
  "digits_value s = foldl (\<lambda>acc c. 10 * acc + digit_value c) 0 s"

text \<open>A key that the user named \<open>Alias_00(x)\<close>.\<close>

definition user_alias_key :: Instruction where
  "user_alias_key =
     \<lparr>instruction_id = ''Alias_00(x)'', indent_count = 0, keycode = 0,
      parameters = InstructionParameterDefaultValues,
      instruction_type = KEY, sub_instructions = None, line_number = 1\<rparr>"

text \<open>
  What \<open>runtime_prepare\<close> does with a parsed instruction, read off the instructions
  recorded before it: \<open>is_nested seen i\<close> holds when \<open>i\<close> is indented and an earlier
  instruction has a smaller indent; \<open>execution_ids\<close> collects, in source order, the
  transactions that are not nested; \<open>no_orphans\<close> holds when every indented
  instruction is nested.
\<close>

definition is_nested :: "Instruction list \<Rightarrow> Instruction \<Rightarrow> bool" where
  "is_nested seen i =
     (0 < indent_count i \<and> list_ex (\<lambda>j. indent_count j < indent_count i) seen)"

fun execution_ids :: "Instruction list \<Rightarrow> Instruction list \<Rightarrow> string list" where
  "execution_ids seen [] = []"
| "execution_ids seen (i # rest) =
     (if instruction_type i = NONE then execution_ids seen rest
      else (if \<not> is_nested seen i \<and> instruction_type_is_transaction (instruction_type i)
            then [instruction_id i] else [])
           @ execution_ids (seen @ [i]) rest)"

fun no_orphans :: "Instruction list \<Rightarrow> Instruction list \<Rightarrow> bool" where
  "no_orphans seen [] = True"
| "no_orphans seen (i # rest) =
     (if instruction_type i = NONE then no_orphans seen rest
      else (indent_count i \<le> 0 \<or> is_nested seen i) \<and> no_orphans (seen @ [i]) rest)"

text \<open>
  The state of the loop of \<open>runtime_prepare\<close> after the instructions \<open>seen\<close> have
  been recorded: their ids are the recorded list, and the table holds each of them with
  the indent it was parsed with.
\<close>

definition recorded :: "runtime \<Rightarrow> Instruction list \<Rightarrow> bool" where
  "recorded st seen =
     (all_instructions st = map instruction_id seen
      \<and> list_all (\<lambda>j. map_option indent_count (instructions st (instruction_id j))
                       = Some (indent_count j)) seen)"

section \<open>The heap order and \<open>bubble_down\<close>\<close>

lemma is_heap_iff: "is_heap ns n = heap_ok ns n"
proof
  assume h: "is_heap ns n"
  show "heap_ok ns n"
    unfolding heap_ok_def
  proof (intro allI impI)
    fix p c assume c: "c < n" and pc: "c = 2 * p + 1 \<or> c = 2 * p + 2"
    from pc have par: "(c - 1) div 2 = p" and pos: "1 \<le> c" by auto
    from h c pos have "timestamp (ns ! ((c - 1) div 2)) \<le> timestamp (ns ! c)"
      by (simp add: is_heap_def list_all_iff)
    with par show "timestamp (ns ! p) \<le> timestamp (ns ! c)" by simp
  qed
next
  assume h: "heap_ok ns n"
  show "is_heap ns n"
    unfolding is_heap_def list_all_iff
  proof
    fix c assume "c \<in> set [1..<n]"
    then have c: "1 \<le> c" "c < n" by auto
    then have "c = 2 * ((c - 1) div 2) + 1 \<or> c = 2 * ((c - 1) div 2) + 2" by presburger
    with h c show "timestamp (ns ! ((c - 1) div 2)) \<le> timestamp (ns ! c)"
      unfolding heap_ok_def by blast
  qed
qed

lemma swap_nodes_nth:
  "a < length ns \<Longrightarrow> b < length ns \<Longrightarrow>
   swap_nodes ns a b ! j = (if j = b then ns ! a else if j = a then ns ! b else ns ! j)"
  by (simp add: swap_nodes_def nth_list_update)

lemma length_swap_nodes [simp]: "length (swap_nodes ns a b) = length ns"
  by (simp add: swap_nodes_def)

lemma mset_swap_nodes:
  "a < length ns \<Longrightarrow> b < length ns \<Longrightarrow> mset (swap_nodes ns a b) = mset ns"
  by (simp add: swap_nodes_def mset_swap)

lemma heap_exceptD1:
  "heap_except ns n k \<Longrightarrow> c < n \<Longrightarrow> p \<noteq> k \<Longrightarrow> c = 2 * p + 1 \<or> c = 2 * p + 2 \<Longrightarrow>
   timestamp (ns ! p) \<le> timestamp (ns ! c)"
  unfolding heap_except_def by blast

lemma heap_exceptD2:
  "heap_except ns n k \<Longrightarrow> c < n \<Longrightarrow> k = 2 * p + 1 \<or> k = 2 * p + 2 \<Longrightarrow>
   c = 2 * k + 1 \<or> c = 2 * k + 2 \<Longrightarrow> timestamp (ns ! p) \<le> timestamp (ns ! c)"
  unfolding heap_except_def by blast

text \<open>
  Swapping the exempted entry \<open>k\<close> with its smaller child \<open>m\<close> moves the exemption to
  \<open>m\<close>.
\<close>

lemma heap_except_swap:
  assumes len: "n \<le> length ns" and he: "heap_except ns n k"
    and m: "m < n" "m = 2 * k + 1 \<or> m = 2 * k + 2"
    and lt: "timestamp (ns ! m) < timestamp (ns ! k)"
    and least: "\<And>c. c < n \<Longrightarrow> c = 2 * k + 1 \<or> c = 2 * k + 2 \<Longrightarrow>
                  timestamp (ns ! m) \<le> timestamp (ns ! c)"
  shows "heap_except (swap_nodes ns k m) n m"
proof -
  have k: "k < length ns" "m < length ns" "k \<noteq> m" using len m by auto
  have nth: "\<And>j. swap_nodes ns k m ! j
                 = (if j = m then ns ! k else if j = k then ns ! m else ns ! j)"
    using k by (simp add: swap_nodes_nth)
  show ?thesis
    unfolding heap_except_def
  proof (intro conjI allI impI)
    fix p c assume c: "c < n" and pm: "p \<noteq> m" and pc: "c = 2 * p + 1 \<or> c = 2 * p + 2"
    show "timestamp (swap_nodes ns k m ! p) \<le> timestamp (swap_nodes ns k m ! c)"
    proof (cases "p = k")
      case True
      have ck: "c \<noteq> k" using pc True by auto
      have "timestamp (ns ! m) \<le> timestamp (ns ! c)" using least [OF c] pc True by simp
      then show ?thesis using True ck lt k by (simp add: nth)
    next
      case False
      have cm: "c \<noteq> m" using pc m False by auto
      show ?thesis
      proof (cases "c = k")
        case True
        have "timestamp (ns ! p) \<le> timestamp (ns ! m)"
          using heap_exceptD2 [OF he m(1) _ m(2), of p] pc True by simp
        then show ?thesis using True False pm cm k by (simp add: nth)
      next
        case ck: False
        have "timestamp (ns ! p) \<le> timestamp (ns ! c)"
          using heap_exceptD1 [OF he c False pc] .
        then show ?thesis using ck False pm cm by (simp add: nth)
      qed
    qed
  next
    fix p c assume c: "c < n" and mp: "m = 2 * p + 1 \<or> m = 2 * p + 2"
      and cm: "c = 2 * m + 1 \<or> c = 2 * m + 2"
    from mp m have pk: "p = k" by auto
    have cne: "c \<noteq> k" "c \<noteq> m" using cm m by auto
    have mk: "m \<noteq> k" using k by simp
    have "timestamp (ns ! m) \<le> timestamp (ns ! c)"
      using heap_exceptD1 [OF he c mk cm] .
    then show "timestamp (swap_nodes ns k m ! p) \<le> timestamp (swap_nodes ns k m ! c)"
      using pk cne k by (simp add: nth)
  qed
qed

lemma heap_except_leaf:
  assumes "heap_except ns n k" and "n \<le> k * 2 + 1"
  shows "heap_ok ns n"
  unfolding heap_ok_def
proof (intro allI impI)
  fix p c assume c: "c < n" and pc: "c = 2 * p + 1 \<or> c = 2 * p + 2"
  have "p \<noteq> k" using c pc assms(2) by auto
  then show "timestamp (ns ! p) \<le> timestamp (ns ! c)"
    using heap_exceptD1 [OF assms(1) c _ pc] by simp
qed

lemma heap_except_settled:
  assumes he: "heap_except ns n k"
    and l: "k * 2 + 1 < n \<longrightarrow> timestamp (ns ! k) \<le> timestamp (ns ! (k * 2 + 1))"
    and r: "k * 2 + 2 < n \<longrightarrow> timestamp (ns ! k) \<le> timestamp (ns ! (k * 2 + 2))"
  shows "heap_ok ns n"
  unfolding heap_ok_def
proof (intro allI impI)
  fix p c assume c: "c < n" and pc: "c = 2 * p + 1 \<or> c = 2 * p + 2"
  show "timestamp (ns ! p) \<le> timestamp (ns ! c)"
  proof (cases "p = k")
    case True
    then show ?thesis using c pc l r by (auto simp: mult.commute)
  next
    case False
    then show ?thesis using heap_exceptD1 [OF he c _ pc] by simp
  qed
qed

lemma bubble_down_unfold:
  "bubble_down ns n k =
     (if n \<le> k * 2 + 1 then ns
      else if min_child ns n k \<noteq> k
           then bubble_down (swap_nodes ns k (min_child ns n k)) n (min_child ns n k)
           else ns)"
  by (subst bubble_down.simps) (simp add: Let_def min_child_def)

lemma bubble_down_induct:
  assumes step: "\<And>ns n k.
     (\<not> n \<le> k * 2 + 1 \<Longrightarrow> min_child ns n k \<noteq> k \<Longrightarrow>
        P (swap_nodes ns k (min_child ns n k)) n (min_child ns n k)) \<Longrightarrow> P ns n k"
  shows "P ns n k"
proof (induction ns n k rule: bubble_down.induct)
  case (1 ns n k)
  show ?case
  proof (rule step)
    assume a: "\<not> n \<le> k * 2 + 1" and b: "min_child ns n k \<noteq> k"
    show "P (swap_nodes ns k (min_child ns n k)) n (min_child ns n k)"
      using "1.IH" [OF refl refl a refl refl refl] b
      unfolding min_child_def Let_def by blast
  qed
qed

lemma min_child_moved:
  assumes "\<not> n \<le> k * 2 + 1" and "min_child ns n k \<noteq> k"
  shows "min_child ns n k < n"
    and "min_child ns n k = 2 * k + 1 \<or> min_child ns n k = 2 * k + 2"
    and "timestamp (ns ! min_child ns n k) < timestamp (ns ! k)"
    and "\<And>c. c < n \<Longrightarrow> c = 2 * k + 1 \<or> c = 2 * k + 2 \<Longrightarrow>
           timestamp (ns ! min_child ns n k) \<le> timestamp (ns ! c)"
  using assms by (auto simp: min_child_def Let_def mult.commute split: if_splits)

lemma min_child_stays:
  assumes "min_child ns n k = k"
  shows "k * 2 + 1 < n \<longrightarrow> timestamp (ns ! k) \<le> timestamp (ns ! (k * 2 + 1))"
    and "k * 2 + 2 < n \<longrightarrow> timestamp (ns ! k) \<le> timestamp (ns ! (k * 2 + 2))"
  using assms by (auto simp: min_child_def Let_def split: if_splits)

lemma length_bubble_down [simp]: "length (bubble_down ns n k) = length ns"
proof (induction ns n k rule: bubble_down_induct)
  case (1 ns n k)
  then show ?case by (subst bubble_down_unfold) simp
qed

lemma mset_bubble_down:
  "n \<le> length ns \<Longrightarrow> mset (bubble_down ns n k) = mset ns"
proof (induction ns n k rule: bubble_down_induct)
  case (1 ns n k)
  show ?case
  proof (cases "\<not> n \<le> k * 2 + 1 \<and> min_child ns n k \<noteq> k")
    case True
    then have a: "\<not> n \<le> k * 2 + 1" and b: "min_child ns n k \<noteq> k" by simp_all
    have mn: "min_child ns n k < n" by (rule min_child_moved(1) [OF a b])
    have lens: "k < length ns" "min_child ns n k < length ns" using mn a "1.prems" by auto
    have "mset (bubble_down (swap_nodes ns k (min_child ns n k)) n (min_child ns n k))
          = mset (swap_nodes ns k (min_child ns n k))"
      using "1.IH" [OF a b] "1.prems" by simp
    then show ?thesis
      using a b lens by (subst bubble_down_unfold) (simp add: mset_swap_nodes)
  next
    case False
    then show ?thesis by (subst bubble_down_unfold) auto
  qed
qed

lemma bubble_down_heap:
  "n \<le> length ns \<Longrightarrow> heap_except ns n k \<Longrightarrow> heap_ok (bubble_down ns n k) n"
proof (induction ns n k rule: bubble_down_induct)
  case (1 ns n k)
  show ?case
  proof (cases "n \<le> k * 2 + 1")
    case True
    then have "bubble_down ns n k = ns" by (subst bubble_down_unfold) simp
    then show ?thesis using heap_except_leaf [OF "1.prems"(2) True] by simp
  next
    case a: False
    show ?thesis
    proof (cases "min_child ns n k = k")
      case True
      then have eq: "bubble_down ns n k = ns"
        using a by (subst bubble_down_unfold) simp
      show ?thesis
        using heap_except_settled [OF "1.prems"(2) min_child_stays [OF True]] eq by simp
    next
      case b: False
      have eq: "bubble_down ns n k
                = bubble_down (swap_nodes ns k (min_child ns n k)) n (min_child ns n k)"
        using a b by (subst bubble_down_unfold) simp
      have he: "heap_except (swap_nodes ns k (min_child ns n k)) n (min_child ns n k)"
        using heap_except_swap [OF "1.prems"(1) "1.prems"(2) min_child_moved [OF a b]] .
      have "heap_ok (bubble_down (swap_nodes ns k (min_child ns n k)) n (min_child ns n k)) n"
        using "1.IH" [OF a b] "1.prems"(1) he by simp
      then show ?thesis using eq by simp
    qed
  qed
qed

text \<open>Re-keying the root of a heap leaves a heap with the root exempted.\<close>

lemma heap_except_rekey_root:
  assumes "heap_ok ns n"
  shows "heap_except (ns[0 := x]) n 0"
  unfolding heap_except_def
proof (intro conjI allI impI)
  fix p c assume c: "c < n" and p0: "p \<noteq> 0" and pc: "c = 2 * p + 1 \<or> c = 2 * p + 2"
  have c0: "c \<noteq> 0" using pc by auto
  have "timestamp (ns ! p) \<le> timestamp (ns ! c)"
    using assms c pc unfolding heap_ok_def by blast
  then show "timestamp (ns[0 := x] ! p) \<le> timestamp (ns[0 := x] ! c)"
    using p0 c0 by simp
next
  fix p c :: nat assume "0 = 2 * p + 1 \<or> 0 = 2 * p + 2"
  then show "timestamp (ns[0 := x] ! p) \<le> timestamp (ns[0 := x] ! c)" by simp
qed

text \<open>
  Claim C4. On a queue with at least one entry whose entries are in heap order,
  \<open>str_timestamp_queue_pop q new_ts\<close> returns the value that was at the root, the entries
  afterwards are the entries before with the root's timestamp replaced by \<open>new_ts\<close>
  (as a multiset: the entry is re-keyed, none is added or removed), size and capacity are
  unchanged, and the result is in heap order: no parent has a timestamp greater than that
  of its left or right child.
\<close>

theorem str_timestamp_queue_pop_rekeys_root:
  assumes wf: "queue_size q = length (nodes q)"
    and nonempty: "0 < queue_size q"
    and heap: "is_heap (nodes q) (queue_size q)"
  shows "\<exists>q'. str_timestamp_queue_pop q new_ts = Inr (node_value (nodes q ! 0), q')
           \<and> queue_size q' = queue_size q
           \<and> capacity q' = capacity q
           \<and> length (nodes q') = length (nodes q)
           \<and> mset (nodes q') = mset ((nodes q)[0 := (nodes q ! 0)\<lparr>timestamp := new_ts\<rparr>])
           \<and> is_heap (nodes q') (queue_size q')
           \<and> (\<forall>p. (2 * p + 1 < queue_size q' \<longrightarrow>
                      timestamp (nodes q' ! p) \<le> timestamp (nodes q' ! (2 * p + 1)))
                  \<and> (2 * p + 2 < queue_size q' \<longrightarrow>
                      timestamp (nodes q' ! p) \<le> timestamp (nodes q' ! (2 * p + 2))))"
proof -
  define ns where "ns = (nodes q)[0 := (nodes q ! 0)\<lparr>timestamp := new_ts\<rparr>]"
  define q' where "q' = q\<lparr>nodes := bubble_down ns (queue_size q) 0\<rparr>"
  have len: "queue_size q \<le> length ns" using wf by (simp add: ns_def)
  have pop: "str_timestamp_queue_pop q new_ts = Inr (node_value (nodes q ! 0), q')"
    using nonempty by (simp add: str_timestamp_queue_pop_def Let_def q'_def ns_def)
  have he: "heap_except ns (queue_size q) 0"
    unfolding ns_def using heap by (intro heap_except_rekey_root) (simp add: is_heap_iff)
  have ok: "heap_ok (nodes q') (queue_size q')"
    using bubble_down_heap [OF len he] by (simp add: q'_def)
  have ms: "mset (nodes q') = mset ns"
    using mset_bubble_down [OF len] by (simp add: q'_def)
  have children: "\<forall>p. (2 * p + 1 < queue_size q' \<longrightarrow>
                      timestamp (nodes q' ! p) \<le> timestamp (nodes q' ! (2 * p + 1)))
                  \<and> (2 * p + 2 < queue_size q' \<longrightarrow>
                      timestamp (nodes q' ! p) \<le> timestamp (nodes q' ! (2 * p + 2)))"
    using ok unfolding heap_ok_def by blast
  have "queue_size q' = queue_size q" "capacity q' = capacity q"
       "length (nodes q') = length (nodes q)"
    by (simp_all add: q'_def ns_def)
  with pop ms ok children show ?thesis
    unfolding ns_def [symmetric] by (intro exI [of _ q']) (simp add: is_heap_iff)
qed

theorem str_timestamp_queue_pop_rekeys_root_witness:
  "queue_size example_queue = length (nodes example_queue)
   \<and> 0 < queue_size example_queue
   \<and> is_heap (nodes example_queue) (queue_size example_queue)
   \<and> (\<exists>q'. str_timestamp_queue_pop example_queue 4 = Inr (''a'', q')
            \<and> queue_size q' = 3
            \<and> is_heap (nodes q') (queue_size q'))"
proof -
  have h1: "queue_size example_queue = length (nodes example_queue)"
    by (simp add: example_queue_def)
  have h2: "0 < queue_size example_queue"
    by (simp add: example_queue_def)
  have h3: "is_heap (nodes example_queue) (queue_size example_queue)"
    by (simp add: example_queue_def is_heap_def upt_rec)
  show ?thesis
    using h1 h2 h3 str_timestamp_queue_pop_rekeys_root [OF h1 h2 h3, of 4]
    by (auto simp: example_queue_def)
qed

section \<open>\<open>str_timestamp_queue_can_pop\<close> and the waitlist tick\<close>

lemma str_timestamp_queue_can_pop_iff:
  "str_timestamp_queue_can_pop now q
   = (queue_size q \<noteq> 0 \<and> now \<le> timestamp (nodes q ! 0))"
  by (simp add: str_timestamp_queue_can_pop_def)

text \<open>
  Claim C1 says that \<open>can_pop\<close> is true iff the heap is non-empty and the current time
  is at or past the root's timestamp. The code compares the other way round. At time 5
  the queue that holds one entry with timestamp 0 (built by one push) is non-empty and its
  root is due, and \<open>str_timestamp_queue_can_pop\<close> returns false.
\<close>

theorem str_timestamp_queue_can_pop_rejects_due_root:
  "str_timestamp_queue_push (str_timestamp_queue_new 1 False) 0 ''x'' = Inr due_queue
   \<and> queue_size due_queue = 1
   \<and> timestamp (nodes due_queue ! 0) \<le> 5
   \<and> str_timestamp_queue_can_pop 5 due_queue = False"
  by (simp add: str_timestamp_queue_push_def str_timestamp_queue_new_def due_queue_def
        str_timestamp_queue_can_pop_def bubble_up.simps)

text \<open>
  Claim C2 says that a waitlist tick at time \<open>t\<close> fires every child whose timestamp is
  at most \<open>t\<close> exactly once. The tick whose clock readings are 5, 6, 7 over the queue
  above, whose only child is due since time 0, leaves the loop at its first test: nothing
  is fired and the queue is unchanged.
\<close>

theorem waitlist_execute_skips_due_child:
  "waitlist_execute_loop cooldown_table [5, 6, 7] due_queue [] = Some (Inr (due_queue, []))"
  by (simp add: waitlist_execute_loop.simps str_timestamp_queue_can_pop_def due_queue_def)

text \<open>
  With the same comparison a child that is not yet due is fired: at the reading 5 the
  child with timestamp 10 passes the test, it is popped, re-keyed to the next reading plus
  the lower bound of its cooldown, \<open>6 + 100\<close>, and executed; the loop ends when a
  reading has passed the new timestamp.
\<close>

lemma waitlist_execute_fires_early_child:
  "waitlist_execute_loop cooldown_table [5, 6, 200] future_queue []
   = Some (Inr (future_queue\<lparr>nodes := [\<lparr>timestamp = 106, node_value = ''x''\<rparr>]\<rparr>, [''x'']))"
  by (simp add: waitlist_execute_loop.simps str_timestamp_queue_can_pop_def future_queue_def
        cooldown_table_def cooldown_key_def str_timestamp_queue_peek_value_def
        instruction_map_get_def instruction_get_parameter_lower_value_def
        str_timestamp_queue_pop_def instruction_execute_def bubble_down_unfold Let_def
        time_t_add_def)

section \<open>Routine scheduler\<close>

text \<open>
  Claim C3. In a routine tick whose child at the cursor is found and executed: when the
  child reports not-ready the routine is unchanged, so the cursor does not advance; when
  it reports ready the cursor is incremented, and then, if the bound is set
  (\<open>bound_idx \<ge> 0\<close>) and the cursor has reached it, the cursor becomes 0 and the
  bound \<open>-1\<close>; else, if the cursor has reached the number of children, the cursor becomes
  0; else it keeps the incremented value. The id list is not changed.
\<close>

theorem routine_execute_one_cursor:
  assumes "str_list_get_str (instruction_ids r) (current_idx r) = Inr ident"
    and "instruction_map_get imap ident = Some child"
    and "execute child = Inr ready"
  shows "(\<not> ready \<longrightarrow> routine_execute_one execute imap r = Inr r)
       \<and> (ready \<longrightarrow>
            (\<exists>r'. routine_execute_one execute imap r = Inr r'
               \<and> routine_id r' = routine_id r
               \<and> instruction_ids r' = instruction_ids r
               \<and> (if 0 \<le> bound_idx r \<and> bound_idx r \<le> current_idx r + 1
                   then current_idx r' = 0 \<and> bound_idx r' = - 1
                   else if int (length (instruction_ids r)) \<le> current_idx r + 1
                        then current_idx r' = 0 \<and> bound_idx r' = bound_idx r
                        else current_idx r' = current_idx r + 1
                             \<and> bound_idx r' = bound_idx r)))"
  using assms
  by (simp add: routine_execute_one_def Let_def str_list_get_size_def)

theorem routine_execute_one_cursor_witness:
  "str_list_get_str (instruction_ids example_routine) (current_idx example_routine) = Inr ''x''
   \<and> instruction_map_get cooldown_table ''x'' = Some cooldown_key
   \<and> always_ready cooldown_key = Inr True
   \<and> (\<exists>r'. routine_execute_one always_ready cooldown_table example_routine = Inr r'
          \<and> current_idx r' = 1 \<and> bound_idx r' = - 1)"
proof -
  have h1: "str_list_get_str (instruction_ids example_routine) (current_idx example_routine)
            = Inr ''x''"
    by (simp add: example_routine_def str_list_get_str_def)
  have h2: "instruction_map_get cooldown_table ''x'' = Some cooldown_key"
    by (simp add: instruction_map_get_def cooldown_table_def)
  have h3: "always_ready cooldown_key = Inr True"
    by (simp add: always_ready_def)
  show ?thesis
    using h1 h2 h3
      routine_execute_one_cursor [where r = example_routine and ident = "''x''"
        and imap = cooldown_table and child = cooldown_key and execute = always_ready
        and ready = True, OF h1 h2 h3]
    by (auto simp: example_routine_def)
qed

lemma routine_execute_one_ready:
  assumes "\<And>c. execute c = Inr True"
    and "\<And>ident. ident \<in> set (instruction_ids r) \<Longrightarrow> instruction_map_get imap ident \<noteq> None"
    and "0 \<le> current_idx r" "current_idx r < int (length (instruction_ids r))"
  shows "routine_execute_one execute imap r =
           Inr (if 0 \<le> bound_idx r \<and> bound_idx r \<le> current_idx r + 1
                then r\<lparr>current_idx := 0, bound_idx := - 1\<rparr>
                else if int (length (instruction_ids r)) \<le> current_idx r + 1
                     then r\<lparr>current_idx := 0\<rparr>
                     else r\<lparr>current_idx := current_idx r + 1\<rparr>)"
proof -
  have "instruction_ids r ! nat (current_idx r) \<in> set (instruction_ids r)"
    using assms(3,4) by simp
  then obtain child
    where "instruction_map_get imap (instruction_ids r ! nat (current_idx r)) = Some child"
    using assms(2) by blast
  then show ?thesis
    using assms(1,3,4)
    by (simp add: routine_execute_one_def str_list_get_str_def Let_def str_list_get_size_def)
qed

lemma routine_execute_one_bound:
  "routine_execute_one execute imap r = Inr r' \<Longrightarrow>
   bound_idx r' = bound_idx r \<or> (current_idx r' = 0 \<and> bound_idx r' = - 1)"
  by (auto simp: routine_execute_one_def Let_def split: sum.splits option.splits if_splits)

lemma routine_ticks_snoc:
  "routine_ticks execute imap (Suc k) r =
     (case routine_ticks execute imap k r of
        Inl e \<Rightarrow> Inl e
      | Inr r1 \<Rightarrow> routine_execute_one execute imap r1)"
proof (induction k arbitrary: r)
  case 0
  show ?case by (simp split: sum.splits)
next
  case (Suc k)
  show ?case
  proof (cases "routine_execute_one execute imap r")
    case (Inl e)
    then show ?thesis by simp
  next
    case (Inr r1)
    have "routine_ticks execute imap (Suc (Suc k)) r = routine_ticks execute imap (Suc k) r1"
      using Inr by simp
    also have "\<dots> = (case routine_ticks execute imap k r1 of
                        Inl e \<Rightarrow> Inl e | Inr r2 \<Rightarrow> routine_execute_one execute imap r2)"
      by (rule Suc.IH)
    also have "routine_ticks execute imap k r1 = routine_ticks execute imap (Suc k) r"
      using Inr by simp
    finally show ?thesis .
  qed
qed

text \<open>
  While the cursor stays below a bound that lies within the list, \<open>k\<close> ready ticks move
  it forward by \<open>k\<close>.
\<close>

lemma routine_ticks_below_bound:
  assumes "\<And>c. execute c = Inr True"
    and "\<And>ident. ident \<in> set (instruction_ids r) \<Longrightarrow> instruction_map_get imap ident \<noteq> None"
    and "0 \<le> current_idx r"
    and "current_idx r + int k < bound_idx r"
    and "bound_idx r \<le> int (length (instruction_ids r))"
  shows "routine_ticks execute imap k r = Inr (r\<lparr>current_idx := current_idx r + int k\<rparr>)"
  using assms(4)
proof (induction k)
  case 0
  show ?case by simp
next
  case (Suc k)
  let ?r1 = "r\<lparr>current_idx := current_idx r + int k\<rparr>"
  have k: "routine_ticks execute imap k r = Inr ?r1" using Suc by simp
  have "routine_execute_one execute imap ?r1 =
          Inr (?r1\<lparr>current_idx := current_idx ?r1 + 1\<rparr>)"
    using Suc.prems assms(3,5)
    by (subst routine_execute_one_ready [OF assms(1)]) (use assms(2) in auto)
  then show ?case
    using k by (simp add: routine_ticks_snoc add.assoc del: routine_ticks.simps)
qed

lemma routine_ticks_reach_bound:
  assumes "\<And>c. execute c = Inr True"
    and "\<And>ident. ident \<in> set (instruction_ids r) \<Longrightarrow> instruction_map_get imap ident \<noteq> None"
    and "0 \<le> current_idx r"
    and "current_idx r < bound_idx r"
    and "bound_idx r \<le> int (length (instruction_ids r))"
  shows "routine_ticks execute imap (nat (bound_idx r - current_idx r)) r
         = Inr (r\<lparr>current_idx := 0, bound_idx := - 1\<rparr>)"
proof -
  define k where "k = nat (bound_idx r - current_idx r - 1)"
  have kk: "nat (bound_idx r - current_idx r) = Suc k"
    and lt: "current_idx r + int k < bound_idx r"
    and eq: "current_idx r + int k + 1 = bound_idx r"
    using assms(4) by (simp_all add: k_def)
  let ?r1 = "r\<lparr>current_idx := current_idx r + int k\<rparr>"
  have k: "routine_ticks execute imap k r = Inr ?r1"
    by (rule routine_ticks_below_bound [OF assms(1) assms(2) assms(3) lt assms(5)])
  have "routine_execute_one execute imap ?r1 = Inr (?r1\<lparr>current_idx := 0, bound_idx := - 1\<rparr>)"
    using assms(3,4,5) eq
    by (subst routine_execute_one_ready [OF assms(1)]) (use assms(2) in auto)
  then show ?thesis
    unfolding kk using k by (simp add: routine_ticks_snoc del: routine_ticks.simps)
qed

lemma routine_insert_instruction_fields:
  "routine_id (routine_insert_instruction r i) = routine_id r"
  "instruction_ids (routine_insert_instruction r i) = instruction_ids r @ [instruction_id i]"
  "current_idx (routine_insert_instruction r i) = current_idx r"
  "bound_idx (routine_insert_instruction r i)
   = (if bound_idx r = - 1 then int (length (instruction_ids r)) + 1 else bound_idx r)"
  by (simp_all add: routine_insert_instruction_def Let_def str_list_insert_str_def
        str_list_get_size_def)

lemma routine_insert_many_fields:
  "instruction_ids (foldl routine_insert_instruction r js)
   = instruction_ids r @ map instruction_id js"
  "current_idx (foldl routine_insert_instruction r js) = current_idx r"
  "bound_idx r \<noteq> - 1 \<Longrightarrow> bound_idx (foldl routine_insert_instruction r js) = bound_idx r"
  by (induction js arbitrary: r) (simp_all add: routine_insert_instruction_fields)

text \<open>
  Claim C7. Inserting a child appends its id and leaves the cursor alone. When no bound is
  set (\<open>bound_idx = -1\<close>) the insertion sets the bound to the number of children after
  the insert; when a bound is set, the insertion leaves it as it is, and so does any
  further run of insertions. A tick leaves the bound as it is or wraps, resetting the
  cursor to 0 and the bound to \<open>-1\<close>. Hence, with children that all execute, after an
  insertion \<open>i\<close> into a routine without bound and any further insertions \<open>js\<close>, the
  cursor walks from its position \<open>c\<close> through every index below the bound set by the
  first insertion, one per tick (the original members and the first appended child, each
  once), and the tick after the last of them wraps to cursor 0 and bound \<open>-1\<close>.
\<close>

theorem routine_insert_instruction_bound:
  "instruction_ids (routine_insert_instruction r i) = instruction_ids r @ [instruction_id i]
   \<and> current_idx (routine_insert_instruction r i) = current_idx r
   \<and> (bound_idx r = - 1 \<longrightarrow>
        bound_idx (routine_insert_instruction r i)
        = int (length (instruction_ids (routine_insert_instruction r i))))
   \<and> (bound_idx r \<noteq> - 1 \<longrightarrow>
        bound_idx (routine_insert_instruction r i) = bound_idx r
        \<and> bound_idx (foldl routine_insert_instruction r js) = bound_idx r)
   \<and> (\<forall>r'. routine_execute_one execute imap r = Inr r' \<longrightarrow>
          bound_idx r' = bound_idx r \<or> (current_idx r' = 0 \<and> bound_idx r' = - 1))
   \<and> (bound_idx r = - 1 \<and> 0 \<le> current_idx r
        \<and> current_idx r \<le> int (length (instruction_ids r))
        \<and> (\<forall>c. execute c = Inr True)
        \<and> (\<forall>ident \<in> set (instruction_ids r @ instruction_id i # map instruction_id js).
               instruction_map_get imap ident \<noteq> None)
       \<longrightarrow>
        (let r2 = foldl routine_insert_instruction (routine_insert_instruction r i) js;
             b = int (length (instruction_ids r)) + 1
         in bound_idx r2 = b
            \<and> (\<forall>k. current_idx r + int k < b \<longrightarrow>
                  routine_ticks execute imap k r2
                  = Inr (r2\<lparr>current_idx := current_idx r + int k\<rparr>))
            \<and> routine_ticks execute imap (nat (b - current_idx r)) r2
              = Inr (r2\<lparr>current_idx := 0, bound_idx := - 1\<rparr>)))"
proof (intro conjI impI allI)
  show "instruction_ids (routine_insert_instruction r i)
        = instruction_ids r @ [instruction_id i]"
    by (simp add: routine_insert_instruction_fields)
  show "current_idx (routine_insert_instruction r i) = current_idx r"
    by (simp add: routine_insert_instruction_fields)
  show "bound_idx (routine_insert_instruction r i)
        = int (length (instruction_ids (routine_insert_instruction r i)))"
    if "bound_idx r = - 1"
    using that by (simp add: routine_insert_instruction_fields)
  show "bound_idx (routine_insert_instruction r i) = bound_idx r" if "bound_idx r \<noteq> - 1"
    using that by (simp add: routine_insert_instruction_fields)
  show "bound_idx (foldl routine_insert_instruction r js) = bound_idx r"
    if "bound_idx r \<noteq> - 1"
    using that by (rule routine_insert_many_fields(3))
  show "bound_idx r' = bound_idx r \<or> (current_idx r' = 0 \<and> bound_idx r' = - 1)"
    if "routine_execute_one execute imap r = Inr r'" for r'
    using that by (rule routine_execute_one_bound)
next
  assume a: "bound_idx r = - 1 \<and> 0 \<le> current_idx r
        \<and> current_idx r \<le> int (length (instruction_ids r))
        \<and> (\<forall>c. execute c = Inr True)
        \<and> (\<forall>ident \<in> set (instruction_ids r @ instruction_id i # map instruction_id js).
               instruction_map_get imap ident \<noteq> None)"
  define r2 where "r2 = foldl routine_insert_instruction (routine_insert_instruction r i) js"
  define b where "b = int (length (instruction_ids r)) + 1"
  have b1: "bound_idx (routine_insert_instruction r i) = b"
    using a by (simp add: routine_insert_instruction_fields b_def)
  have ids: "instruction_ids r2 = instruction_ids r @ instruction_id i # map instruction_id js"
    by (simp add: r2_def routine_insert_many_fields routine_insert_instruction_fields)
  have cur: "current_idx r2 = current_idx r"
    by (simp add: r2_def routine_insert_many_fields routine_insert_instruction_fields)
  have bnd: "bound_idx r2 = b"
    unfolding r2_def using b1 routine_insert_many_fields(3) [of "routine_insert_instruction r i" js]
    by (simp add: b_def)
  have ex: "\<And>c. execute c = Inr True" using a by simp
  have known: "instruction_map_get imap ident \<noteq> None"
    if "ident \<in> set (instruction_ids r2)" for ident
  proof -
    from that have "ident \<in> set (instruction_ids r @ instruction_id i # map instruction_id js)"
      by (simp only: ids)
    with a show ?thesis by blast
  qed
  have c0: "0 \<le> current_idx r2" using a cur by simp
  have ble: "bound_idx r2 \<le> int (length (instruction_ids r2))"
    using bnd ids by (simp add: b_def)
  have walk: "\<forall>k. current_idx r + int k < b \<longrightarrow>
                routine_ticks execute imap k r2 = Inr (r2\<lparr>current_idx := current_idx r + int k\<rparr>)"
  proof (intro allI impI)
    fix k assume "current_idx r + int k < b"
    then have "current_idx r2 + int k < bound_idx r2" using cur bnd by simp
    from routine_ticks_below_bound [OF ex known c0 this ble]
    show "routine_ticks execute imap k r2 = Inr (r2\<lparr>current_idx := current_idx r + int k\<rparr>)"
      using cur by simp
  qed
  have "current_idx r2 < bound_idx r2" using a cur bnd by (simp add: b_def)
  from routine_ticks_reach_bound [OF ex known c0 this ble]
  have wrap: "routine_ticks execute imap (nat (b - current_idx r)) r2
              = Inr (r2\<lparr>current_idx := 0, bound_idx := - 1\<rparr>)"
    using cur bnd by simp
  show "let r2 = foldl routine_insert_instruction (routine_insert_instruction r i) js;
            b = int (length (instruction_ids r)) + 1
        in bound_idx r2 = b
           \<and> (\<forall>k. current_idx r + int k < b \<longrightarrow>
                 routine_ticks execute imap k r2
                 = Inr (r2\<lparr>current_idx := current_idx r + int k\<rparr>))
           \<and> routine_ticks execute imap (nat (b - current_idx r)) r2
             = Inr (r2\<lparr>current_idx := 0, bound_idx := - 1\<rparr>)"
    using bnd walk wrap unfolding Let_def r2_def [symmetric] b_def [symmetric] by simp
qed

theorem routine_insert_instruction_bound_witness:
  "bound_idx mid_routine = - 1
   \<and> current_idx mid_routine = 1
   \<and> bound_idx (routine_insert_instruction mid_routine second_key) = 3
   \<and> routine_ticks always_ready two_key_table 1
        (routine_insert_instruction mid_routine second_key)
      = Inr \<lparr>routine_id = ''r'', instruction_ids = [''x'', ''x'', ''y''],
             current_idx = 2, bound_idx = 3\<rparr>
   \<and> routine_ticks always_ready two_key_table 2
        (routine_insert_instruction mid_routine second_key)
      = Inr \<lparr>routine_id = ''r'', instruction_ids = [''x'', ''x'', ''y''],
             current_idx = 0, bound_idx = - 1\<rparr>"
proof -
  note t = routine_insert_instruction_bound
             [of mid_routine second_key "[]" always_ready two_key_table]
  have hyp: "bound_idx mid_routine = - 1 \<and> 0 \<le> current_idx mid_routine
        \<and> current_idx mid_routine \<le> int (length (instruction_ids mid_routine))
        \<and> (\<forall>c. always_ready c = Inr True)
        \<and> (\<forall>ident \<in> set (instruction_ids mid_routine @ instruction_id second_key
                           # map instruction_id []).
               instruction_map_get two_key_table ident \<noteq> None)"
    by (simp add: mid_routine_def always_ready_def second_key_def two_key_table_def
          instruction_map_get_def)
  define r2 where "r2 = routine_insert_instruction mid_routine second_key"
  have r2: "r2 = \<lparr>routine_id = ''r'', instruction_ids = [''x'', ''x'', ''y''],
                  current_idx = 1, bound_idx = 3\<rparr>"
    by (simp add: r2_def routine_insert_instruction_def mid_routine_def second_key_def
          Let_def str_list_insert_str_def str_list_get_size_def)
  have len: "int (length (instruction_ids mid_routine)) + 1 = 3"
    and cur: "current_idx mid_routine = 1"
    by (simp_all add: mid_routine_def)
  from t hyp have big:
    "let r2 = foldl routine_insert_instruction
                (routine_insert_instruction mid_routine second_key) [];
         b = int (length (instruction_ids mid_routine)) + 1
     in bound_idx r2 = b
        \<and> (\<forall>k. current_idx mid_routine + int k < b \<longrightarrow>
              routine_ticks always_ready two_key_table k r2
              = Inr (r2\<lparr>current_idx := current_idx mid_routine + int k\<rparr>))
        \<and> routine_ticks always_ready two_key_table (nat (b - current_idx mid_routine)) r2
          = Inr (r2\<lparr>current_idx := 0, bound_idx := - 1\<rparr>)"
    by blast
  note big' = big [unfolded Let_def len cur foldl_Nil, folded r2_def]
  from big' have b: "bound_idx r2 = 3"
    and walk: "\<And>k. 1 + int k < 3 \<Longrightarrow>
              routine_ticks always_ready two_key_table k r2
              = Inr (r2\<lparr>current_idx := 1 + int k\<rparr>)"
    and wrap: "routine_ticks always_ready two_key_table (nat (3 - 1)) r2
               = Inr (r2\<lparr>current_idx := 0, bound_idx := - 1\<rparr>)"
    by blast+
  have one: "routine_ticks always_ready two_key_table 1 r2 = Inr (r2\<lparr>current_idx := 2\<rparr>)"
    using walk [of 1] by simp
  have two: "routine_ticks always_ready two_key_table 2 r2
             = Inr (r2\<lparr>current_idx := 0, bound_idx := - 1\<rparr>)"
    using wrap by simp
  have "bound_idx mid_routine = - 1" "current_idx mid_routine = 1"
    by (simp_all add: mid_routine_def)
  then show ?thesis
    using b one two unfolding r2_def [symmetric]
    by (simp add: r2)
qed

text \<open>
  Claim C10. For an instruction whose type is set, \<open>instruction_execute\<close> returns
  false (it has no other effect: it reads the type and returns). It never returns true, so
  a routine tick run with it, and any run of such ticks, either stops at a failed
  assertion or leaves the routine as it was: no tick sees a child executed successfully.
\<close>

theorem instruction_execute_not_ready:
  "(instruction_type i \<noteq> NONE \<longrightarrow> instruction_execute i = Inr False)
   \<and> instruction_execute i \<noteq> Inr True
   \<and> (\<forall>r'. routine_execute_one instruction_execute imap r = Inr r' \<longrightarrow> r' = r)
   \<and> (\<forall>r'. routine_ticks instruction_execute imap k r = Inr r' \<longrightarrow> r' = r)"
proof -
  have one: "r' = r" if "routine_execute_one instruction_execute imap r = Inr r'" for r r'
    using that
    by (auto simp: routine_execute_one_def instruction_execute_def
          split: sum.splits option.splits if_splits)
  have many: "r' = r" if "routine_ticks instruction_execute imap k r = Inr r'" for r'
    using that
  proof (induction k arbitrary: r)
    case 0
    then show ?case by simp
  next
    case (Suc k)
    then show ?case by (auto split: sum.splits dest: one)
  qed
  show ?thesis
    using one many by (auto simp: instruction_execute_def)
qed

theorem instruction_execute_not_ready_witness:
  "instruction_type cooldown_key \<noteq> NONE
   \<and> instruction_execute cooldown_key = Inr False
   \<and> routine_execute_one instruction_execute cooldown_table example_routine
     = Inr example_routine"
proof -
  have h: "instruction_type cooldown_key \<noteq> NONE" by (simp add: cooldown_key_def)
  have e: "instruction_execute cooldown_key = Inr False"
    using instruction_execute_not_ready [of cooldown_key cooldown_table example_routine 0] h
    by blast
  have "routine_execute_one instruction_execute cooldown_table example_routine
        = Inr example_routine"
    using e
    by (simp add: routine_execute_one_def example_routine_def str_list_get_str_def
          instruction_map_get_def cooldown_table_def)
  with h e show ?thesis by simp
qed

section \<open>Instruction kinds\<close>

lemma instruction_type_is_definition_iff:
  "instruction_type_is_definition t
   = (t = KEY \<or> t = SCRIPT \<or> t = WINDOW \<or> t = WAITLIST \<or> t = ROUTINE \<or> t = GROUP)"
  by (cases t) simp_all

text \<open>
  Claim C8 lists seven definition kinds, \<open>random\<close> among them. The switch of
  \<open>instruction_type_is_definition\<close> has no case for \<open>RANDOM\<close>, which falls to the
  default.
\<close>

theorem instruction_type_is_definition_random:
  "instruction_type_is_definition RANDOM = False"
  by simp

section \<open>Runtime preparation\<close>

text \<open>
  Claim C5 says that an instruction at indent greater than 0 with no earlier instruction
  of smaller indent makes parsing fail. For the script whose only line is \<open>press a\<close>
  indented by four columns, \<open>runtime_prepare\<close> ends without an error: the instruction is
  in the table and its id is in the execution list.
\<close>

theorem runtime_prepare_accepts_orphan:
  "(case runtime_prepare [orphan_press] of
      Inl e \<Rightarrow> False
    | Inr st \<Rightarrow> instructions st ''a'' = Some orphan_press
              \<and> all_instructions st = [''a'']
              \<and> execution_list st = [''a''])"
  by (simp add: runtime_prepare_def orphan_press_def instruction_map_insert_def
        str_list_insert_str_def try_handle_sub_instruction_def str_list_get_size_def
        instruction_map_get_def Let_def)

text \<open>
  Claim C6 says that the execution list holds only instructions at indent 0. For the
  script \<open>press a\<close> (indent 4), \<open>press b\<close> (indent 0) the execution list is
  \<open>[a, b]\<close>, and \<open>a\<close> has indent 4.
\<close>

theorem runtime_prepare_lists_indented:
  "(case runtime_prepare [orphan_press, top_press] of
      Inl e \<Rightarrow> False
    | Inr st \<Rightarrow> execution_list st = [''a'', ''b'']
              \<and> map_option indent_count (instructions st ''a'') = Some 4)"
  by (simp add: runtime_prepare_def orphan_press_def top_press_def instruction_map_insert_def
        str_list_insert_str_def try_handle_sub_instruction_def str_list_get_size_def
        instruction_map_get_def Let_def)

text \<open>
  The loop of \<open>try_handle_sub_instruction\<close> over recorded ids that are all in the table:
  it does not fail, it reports whether one of them has a smaller indent, and it changes no
  indent in the table.
\<close>

lemma try_handle_sub_instruction_loop_result:
  assumes "\<And>ident. ident \<in> set ids \<Longrightarrow> imap ident \<noteq> None"
  shows "\<exists>imap'. try_handle_sub_instruction_loop imap i ids
             = Inr (list_ex (\<lambda>ident. indent_count (the (imap ident)) < indent_count i) ids,
                    imap')
           \<and> (\<forall>k. map_option indent_count (imap' k) = map_option indent_count (imap k))"
  using assms
proof (induction ids)
  case Nil
  show ?case by simp
next
  case (Cons ident ids)
  from Cons.prems [of ident] obtain e where e: "imap ident = Some e" by auto
  show ?case
  proof (cases "indent_count e < indent_count i")
    case True
    then show ?thesis
      using e
      by (simp add: instruction_map_get_def instruction_add_sub_instruction_def)
  next
    case False
    have "\<And>ident. ident \<in> set ids \<Longrightarrow> imap ident \<noteq> None"
      using Cons.prems by simp
    from Cons.IH [OF this] show ?thesis
      using e False by (simp add: instruction_map_get_def)
  qed
qed

text \<open>
  An indented instruction with no recorded instruction of smaller indent: the function
  returns false and the table is unchanged; no assertion fails.
\<close>

lemma try_handle_sub_instruction_orphan:
  assumes "\<And>ident. ident \<in> set all_ids \<Longrightarrow>
             \<exists>e. imap ident = Some e \<and> \<not> indent_count e < indent_count i"
    and "all_ids \<noteq> []"
  shows "try_handle_sub_instruction imap i all_ids = Inr (False, imap)"
proof -
  have "try_handle_sub_instruction_loop imap i ids = Inr (False, imap)"
    if "\<And>ident. ident \<in> set ids \<Longrightarrow>
             \<exists>e. imap ident = Some e \<and> \<not> indent_count e < indent_count i" for ids
    using that
  proof (induction ids)
    case Nil
    show ?case by simp
  next
    case (Cons ident ids)
    from Cons.prems [of ident] obtain e
      where "imap ident = Some e" "\<not> indent_count e < indent_count i" by auto
    moreover have "try_handle_sub_instruction_loop imap i ids = Inr (False, imap)"
      using Cons.IH Cons.prems by simp
    ultimately show ?case by (simp add: instruction_map_get_def)
  qed
  from this [of "rev all_ids"] assms show ?thesis
    by (simp add: try_handle_sub_instruction_def Let_def str_list_get_size_def)
qed

lemma try_handle_sub_instruction_recorded:
  assumes rec: "recorded st seen"
    and ins: "instruction_map_insert (instructions st) i = Inr imap1"
  shows "\<exists>imap2. try_handle_sub_instruction imap1 i
                     (str_list_insert_str (all_instructions st) (instruction_id i))
                   = Inr (is_nested seen i, imap2)
               \<and> recorded (st\<lparr>instructions := imap2,
                               all_instructions :=
                                 str_list_insert_str (all_instructions st) (instruction_id i)\<rparr>)
                     (seen @ [i])
               \<and> recorded (st\<lparr>instructions := imap2,
                               all_instructions :=
                                 str_list_insert_str (all_instructions st) (instruction_id i),
                               execution_list := ex\<rparr>)
                     (seen @ [i])"
proof -
  from ins have fresh: "instructions st (instruction_id i) = None"
    and imap1: "imap1 = (instructions st)(instruction_id i \<mapsto> i)"
    by (auto simp: instruction_map_insert_def split: option.splits)
  have other: "instruction_id j \<noteq> instruction_id i" if "j \<in> set seen" for j
    using rec that fresh by (auto simp: recorded_def list_all_iff)
  have ind1: "map_option indent_count (imap1 (instruction_id j)) = Some (indent_count j)"
    if "j \<in> set (seen @ [i])" for j
    using rec that other by (auto simp: recorded_def list_all_iff imap1)
  let ?all1 = "str_list_insert_str (all_instructions st) (instruction_id i)"
  have all1: "?all1 = map instruction_id (seen @ [i])"
    using rec by (simp add: recorded_def str_list_insert_str_def)
  have known: "imap1 ident \<noteq> None" if "ident \<in> set (rev ?all1)" for ident
  proof -
    from that obtain j where "j \<in> set (seen @ [i])" "ident = instruction_id j"
      unfolding all1 by auto
    with ind1 [of j] show ?thesis by auto
  qed
  from try_handle_sub_instruction_loop_result [of "rev ?all1" imap1 i, OF known]
  obtain imap2 where
    loop: "try_handle_sub_instruction_loop imap1 i (rev ?all1)
           = Inr (list_ex (\<lambda>ident. indent_count (the (imap1 ident)) < indent_count i)
                    (rev ?all1), imap2)"
    and keep: "\<And>k. map_option indent_count (imap2 k) = map_option indent_count (imap1 k)"
    by blast
  have the_ind: "indent_count (the (imap1 (instruction_id j))) = indent_count j"
    if "j \<in> set (seen @ [i])" for j
    using ind1 [OF that] by (cases "imap1 (instruction_id j)") auto
  have ex_eq: "list_ex (\<lambda>ident. indent_count (the (imap1 ident)) < indent_count i) (rev ?all1)
               = list_ex (\<lambda>j. indent_count j < indent_count i) seen"
  proof -
    have "list_ex (\<lambda>ident. indent_count (the (imap1 ident)) < indent_count i) (rev ?all1)
          = (\<exists>j \<in> set (seen @ [i]). indent_count (the (imap1 (instruction_id j)))
                                      < indent_count i)"
      unfolding all1 by (simp add: list_ex_iff)
    also have "\<dots> = (\<exists>j \<in> set (seen @ [i]). indent_count j < indent_count i)"
      using the_ind by (metis (no_types, lifting))
    also have "\<dots> = list_ex (\<lambda>j. indent_count j < indent_count i) seen"
      by (auto simp: list_ex_iff)
    finally show ?thesis .
  qed
  have rec2: "list_all (\<lambda>j. map_option indent_count (imap2 (instruction_id j))
                         = Some (indent_count j)) (seen @ [i])"
    unfolding list_all_iff using ind1 keep by simp
  show ?thesis
  proof (cases "0 < indent_count i")
    case True
    have "try_handle_sub_instruction imap1 i ?all1 = Inr (is_nested seen i, imap2)"
      using True loop ex_eq all1
      by (simp add: try_handle_sub_instruction_def Let_def is_nested_def str_list_get_size_def)
    then show ?thesis
      using rec2 all1 by (intro exI [of _ imap2]) (simp add: recorded_def)
  next
    case False
    have "try_handle_sub_instruction imap1 i ?all1 = Inr (is_nested seen i, imap1)"
      using False by (simp add: try_handle_sub_instruction_def Let_def is_nested_def)
    moreover have "list_all (\<lambda>j. map_option indent_count (imap1 (instruction_id j))
                         = Some (indent_count j)) (seen @ [i])"
      unfolding list_all_iff using ind1 by simp
    ultimately show ?thesis
      using all1 by (intro exI [of _ imap1]) (simp add: recorded_def)
  qed
qed

text \<open>
  The execution list that \<open>runtime_prepare\<close> builds: the ids of the transactions that
  are not nested, in source order.
\<close>

lemma runtime_prepare_loop_execution_list:
  "recorded st seen \<Longrightarrow> runtime_prepare_loop st parsed = Inr st' \<Longrightarrow>
   execution_list st' = execution_list st @ execution_ids seen parsed"
proof (induction parsed arbitrary: st seen)
  case Nil
  then show ?case by simp
next
  case (Cons i rest)
  show ?case
  proof (cases "instruction_type i = NONE")
    case True
    then show ?thesis using Cons by simp
  next
    case False
    from Cons.prems(2) False obtain imap1
      where ins: "instruction_map_insert (instructions st) i = Inr imap1"
      by (cases "instruction_map_insert (instructions st) i") auto
    let ?all1 = "str_list_insert_str (all_instructions st) (instruction_id i)"
    let ?ex1 = "str_list_insert_str (execution_list st) (instruction_id i)"
    from try_handle_sub_instruction_recorded [OF Cons.prems(1) ins, of ?ex1]
    obtain imap2 where
      th: "try_handle_sub_instruction imap1 i ?all1 = Inr (is_nested seen i, imap2)"
      and r1: "recorded (st\<lparr>instructions := imap2, all_instructions := ?all1\<rparr>) (seen @ [i])"
      and r2: "recorded (st\<lparr>instructions := imap2, all_instructions := ?all1,
                             execution_list := ?ex1\<rparr>) (seen @ [i])"
      by blast
    show ?thesis
    proof (cases "\<not> is_nested seen i \<and> instruction_type_is_transaction (instruction_type i)")
      case True
      then have "runtime_prepare_loop
                   (st\<lparr>instructions := imap2, all_instructions := ?all1,
                       execution_list := ?ex1\<rparr>) rest = Inr st'"
        using Cons.prems(2) False ins th by (simp add: Let_def)
      from Cons.IH [OF r2 this] show ?thesis
        using True False by (simp add: str_list_insert_str_def)
    next
      case no: False
      then have "runtime_prepare_loop
                   (st\<lparr>instructions := imap2, all_instructions := ?all1\<rparr>) rest = Inr st'"
        using Cons.prems(2) False ins th by (auto simp: Let_def split: if_splits)
      from Cons.IH [OF r1 this] show ?thesis
        using no False by auto
    qed
  qed
qed

lemma execution_ids_no_orphans:
  "no_orphans seen parsed \<Longrightarrow>
   execution_ids seen parsed
   = map instruction_id
       (filter (\<lambda>i. instruction_type_is_transaction (instruction_type i)
                     \<and> indent_count i \<le> 0) parsed)"
proof (induction parsed arbitrary: seen)
  case Nil
  show ?case by simp
next
  case (Cons i rest)
  show ?case
  proof (cases "instruction_type i = NONE")
    case True
    then show ?thesis using Cons by simp
  next
    case False
    have "is_nested seen i \<longleftrightarrow> \<not> indent_count i \<le> 0"
      using Cons.prems False by (auto simp: is_nested_def)
    then show ?thesis using Cons False by simp
  qed
qed

text \<open>
  When every indented instruction of the script has an earlier instruction of smaller
  indent, the execution list is the list of the transactions at indent 0, in source order.
  In every script the list holds transactions only.
\<close>

lemma runtime_prepare_execution_list:
  assumes "runtime_prepare parsed = Inr st"
  shows "execution_list st = execution_ids [] parsed"
    and "no_orphans [] parsed \<Longrightarrow>
         execution_list st
         = map instruction_id
             (filter (\<lambda>i. instruction_type_is_transaction (instruction_type i)
                           \<and> indent_count i \<le> 0) parsed)"
proof -
  have "recorded \<lparr>instructions = Map.empty, all_instructions = [], execution_list = []\<rparr> []"
    by (simp add: recorded_def)
  from runtime_prepare_loop_execution_list [OF this] assms
  show a: "execution_list st = execution_ids [] parsed"
    by (simp add: runtime_prepare_def)
  show "execution_list st
         = map instruction_id
             (filter (\<lambda>i. instruction_type_is_transaction (instruction_type i)
                           \<and> indent_count i \<le> 0) parsed)"
    if "no_orphans [] parsed"
    using a execution_ids_no_orphans [OF that] by simp
qed

lemma execution_ids_transactions:
  "set (execution_ids seen parsed)
   \<subseteq> instruction_id `
       {i \<in> set parsed. instruction_type_is_transaction (instruction_type i)}"
  by (induction parsed arbitrary: seen) auto

section \<open>Alias generation\<close>

lemma digit_char_is_digit: "d < 10 \<Longrightarrow> is_digit (digit_char d)"
  unfolding is_digit_def digit_char_def by (rule nth_mem) simp

lemma less_10_cases:
  "(d::nat) < 10 \<Longrightarrow>
   d = 0 \<or> d = 1 \<or> d = 2 \<or> d = 3 \<or> d = 4 \<or> d = 5 \<or> d = 6 \<or> d = 7 \<or> d = 8 \<or> d = 9"
  by arith

lemma digit_value_digit_char: "d < 10 \<Longrightarrow> digit_value (digit_char d) = d"
  by (drule less_10_cases) (auto simp: digit_value_def digit_char_def)

lemma digits_value_snoc: "digits_value (s @ [c]) = 10 * digits_value s + digit_value c"
  by (simp add: digits_value_def)

lemma digits_value_decimal: "digits_value (decimal n) = n"
proof (induction n rule: decimal.induct)
  case (1 n)
  show ?case
  proof (cases "n < 10")
    case True
    then show ?thesis
      by (subst decimal.simps) (simp add: digits_value_def digit_value_digit_char)
  next
    case False
    then have "digits_value (decimal n) = 10 * (n div 10) + n mod 10"
      using 1 by (subst decimal.simps) (simp add: digits_value_snoc digit_value_digit_char)
    then show ?thesis by simp
  qed
qed

lemma digits_value_zeros: "digits_value (replicate k CHR ''0'' @ s) = digits_value s"
proof -
  have "foldl (\<lambda>acc c. 10 * acc + digit_value c) 0 (replicate k CHR ''0'') = 0"
    by (induction k) (simp_all add: digit_value_def)
  then show ?thesis by (simp add: digits_value_def)
qed

lemma decimal_digits: "list_all is_digit (decimal n)"
proof (induction n rule: decimal.induct)
  case (1 n)
  show ?case
  proof (cases "n < 10")
    case True
    then show ?thesis by (subst decimal.simps) (simp add: digit_char_is_digit)
  next
    case False
    then show ?thesis
      using 1 by (subst decimal.simps) (simp add: digit_char_is_digit)
  qed
qed

lemma length_decimal: "n < 10 ^ k \<Longrightarrow> 0 < k \<Longrightarrow> length (decimal n) \<le> k"
proof (induction n arbitrary: k rule: decimal.induct)
  case (1 n)
  show ?case
  proof (cases "n < 10")
    case True
    then show ?thesis using "1.prems" by (subst decimal.simps) simp
  next
    case False
    then obtain j where k: "k = Suc j" using "1.prems"(2) by (cases k) auto
    have j0: "0 < j" using False "1.prems"(1) k by (cases j) auto
    have "n div 10 < 10 ^ j" using "1.prems"(1) k by (simp add: less_mult_imp_div_less)
    from "1.IH" [OF False this j0] show ?thesis
      using False k by (subst decimal.simps) simp
  qed
qed

lemma decimal_nonempty: "decimal n \<noteq> []"
  by (subst decimal.simps) simp

text \<open>The rendering of a counter that is not negative: digits only, at least two.\<close>

lemma format_02d_digits:
  assumes "0 \<le> c"
  shows "list_all is_digit (format_02d c)"
proof -
  have "is_digit CHR ''0''" by (simp add: is_digit_def)
  then have "list_all is_digit (replicate k CHR ''0'')" for k
    by (simp add: list_all_iff)
  then show ?thesis using assms by (simp add: format_02d_def decimal_digits)
qed

lemma format_02d_length: "0 \<le> c \<Longrightarrow> 2 \<le> length (format_02d c)"
  by (simp add: format_02d_def)

lemma format_02d_length_le:
  assumes "0 \<le> c" "c < 10000000"
  shows "length (format_02d c) \<le> 7"
proof -
  have "nat c < 10 ^ 7" using assms by simp
  then have "length (decimal (nat c)) \<le> 7" by (rule length_decimal) simp
  then show ?thesis using assms by (simp add: format_02d_def)
qed

lemma format_02d_value: "0 \<le> c \<Longrightarrow> int (digits_value (format_02d c)) = c"
  by (simp add: format_02d_def digits_value_zeros digits_value_decimal)

lemma not_is_digit_paren: "\<not> is_digit CHR ''(''"
  by (simp add: is_digit_def)

lemma takeWhile_digits_paren:
  "list_all is_digit ds \<Longrightarrow> takeWhile is_digit (ds @ CHR ''('' # rest) = ds"
  by (simp add: list_all_iff not_is_digit_paren)

lemma dropWhile_digits_paren:
  "list_all is_digit ds \<Longrightarrow> dropWhile is_digit (ds @ CHR ''('' # rest) = CHR ''('' # rest"
  by (simp add: list_all_iff not_is_digit_paren)

lemma instruction_map_generate_alias_result:
  assumes "0 \<le> c" "c < 10000000"
  shows "instruction_map_generate_alias c ref
         = Inr (''Alias_'' @ format_02d c @ ''('' @ ref @ '')'', c + 1)"
  using format_02d_length_le [OF assms]
  by (simp add: instruction_map_generate_alias_def instruction_alias_prefix_def Let_def)

lemma alias_text_regex:
  assumes "0 \<le> c" "ref \<noteq> []" "CHR 0x0A \<notin> set ref"
  shows "spec_alias_regex (''Alias_'' @ format_02d c @ ''('' @ ref @ '')'')"
proof -
  have "0 < length ref" using assms(2) by simp
  then show ?thesis
    using assms format_02d_length [OF assms(1)] format_02d_digits [OF assms(1)]
    by (simp add: spec_alias_regex_def Let_def takeWhile_digits_paren dropWhile_digits_paren
          butlast_append Suc_le_eq)
qed

lemma alias_text_digits:
  assumes "0 \<le> c"
  shows "takeWhile is_digit (drop 6 (''Alias_'' @ format_02d c @ ''('' @ ref @ '')''))
         = format_02d c"
  using format_02d_digits [OF assms] by (simp add: takeWhile_digits_paren)

lemma alias_text_inject:
  assumes "0 \<le> c" "0 \<le> c'"
    and "''Alias_'' @ format_02d c @ ''('' @ ref @ '')''
         = ''Alias_'' @ format_02d c' @ ''('' @ ref' @ '')''"
  shows "c = c'"
proof -
  have "format_02d c
        = takeWhile is_digit (drop 6 (''Alias_'' @ format_02d c @ ''('' @ ref @ '')''))"
    by (simp only: alias_text_digits [OF assms(1)])
  also have "\<dots> = takeWhile is_digit (drop 6 (''Alias_'' @ format_02d c' @ ''('' @ ref' @ '')''))"
    by (simp only: assms(3))
  also have "\<dots> = format_02d c'"
    by (simp only: alias_text_digits [OF assms(2)])
  finally have "int (digits_value (format_02d c)) = int (digits_value (format_02d c'))"
    by simp
  then show ?thesis
    using assms(1,2) by (simp only: format_02d_value)
qed

text \<open>
  The text of an alias. A call with the counter at \<open>c\<close>, \<open>0 \<le> c < 10^7\<close>, returns
  \<open>Alias_\<close>, the counter in decimal padded with zeros to at least two digits, and the
  referenced id in parentheses; the counter becomes \<open>c + 1\<close>. When the referenced id is
  not empty and holds no line break, the alias matches \<open>Alias_[0-9]{2,}\(.+\)\<close>. Two
  calls at different counter values return different aliases, whatever ids they reference.
\<close>

lemma instruction_map_generate_alias_fresh:
  assumes "0 \<le> c" and "c < 10000000"
  shows "instruction_map_generate_alias c ref
           = Inr (''Alias_'' @ format_02d c @ ''('' @ ref @ '')'', c + 1)
       \<and> 2 \<le> length (format_02d c)
       \<and> list_all is_digit (format_02d c)
       \<and> (ref \<noteq> [] \<and> CHR 0x0A \<notin> set ref \<longrightarrow>
            spec_alias_regex (''Alias_'' @ format_02d c @ ''('' @ ref @ '')''))
       \<and> (\<forall>c' ref' al al' n n'.
             0 \<le> c' \<and> c' \<noteq> c
             \<and> instruction_map_generate_alias c ref = Inr (al, n)
             \<and> instruction_map_generate_alias c' ref' = Inr (al', n')
             \<longrightarrow> al \<noteq> al')"
proof (intro conjI allI impI)
  show "instruction_map_generate_alias c ref
        = Inr (''Alias_'' @ format_02d c @ ''('' @ ref @ '')'', c + 1)"
    by (rule instruction_map_generate_alias_result [OF assms])
  show "2 \<le> length (format_02d c)" by (rule format_02d_length [OF assms(1)])
  show "list_all is_digit (format_02d c)" by (rule format_02d_digits [OF assms(1)])
  show "spec_alias_regex (''Alias_'' @ format_02d c @ ''('' @ ref @ '')'')"
    if "ref \<noteq> [] \<and> CHR 0x0A \<notin> set ref"
    using that alias_text_regex [OF assms(1)] by blast
next
  fix c' ref' al al' n n'
  assume a: "0 \<le> c' \<and> c' \<noteq> c
             \<and> instruction_map_generate_alias c ref = Inr (al, n)
             \<and> instruction_map_generate_alias c' ref' = Inr (al', n')"
  have t1: "al = ''Alias_'' @ format_02d c @ ''('' @ ref @ '')''"
    using a instruction_map_generate_alias_result [OF assms, of ref] by simp
  have t2: "al' = ''Alias_'' @ format_02d c' @ ''('' @ ref' @ '')''"
    using a
    by (auto simp: instruction_map_generate_alias_def instruction_alias_prefix_def Let_def
          split: if_splits)
  show "al \<noteq> al'"
  proof
    assume "al = al'"
    then have "c = c'"
      using alias_text_inject [OF assms(1), of c' ref ref'] a t1 t2 by simp
    then show False using a by simp
  qed
qed

text \<open>
  Every alias begins with \<open>Alias_\<close>, so it differs from every id that does not; and an
  insertion into the table that succeeds was made under an id that the table did not hold.
\<close>

lemma instruction_map_generate_alias_prefix:
  "instruction_map_generate_alias c ref = Inr (al, n) \<Longrightarrow> take 6 al = ''Alias_''"
  by (auto simp: instruction_map_generate_alias_def instruction_alias_prefix_def Let_def
        split: if_splits)

lemma instruction_map_generate_alias_other_prefix:
  "instruction_map_generate_alias c ref = Inr (al, n) \<Longrightarrow> take 6 ident \<noteq> ''Alias_'' \<Longrightarrow>
   al \<noteq> ident"
  using instruction_map_generate_alias_prefix by blast

lemma instruction_map_insert_fresh:
  "instruction_map_insert imap i = Inr imap' \<Longrightarrow>
   imap (instruction_id i) = None \<and> imap' = imap(instruction_id i \<mapsto> i)"
  by (auto simp: instruction_map_insert_def split: option.splits)

text \<open>
  Claim C9 says that a generated alias never collides with an id defined by the user. The
  alias is built from the counter and the referenced id alone, without a look at the
  instruction table: after the user's line \<open>key Alias_00(x)\<close> has been registered, the
  first alias generated for \<open>x\<close> is the id of that key, and inserting an instruction
  under it fails as a duplicate.
\<close>

theorem instruction_map_generate_alias_collides:
  "instruction_map_generate_alias 0 ''x'' = Inr (''Alias_00(x)'', 1)
   \<and> instruction_id user_alias_key = ''Alias_00(x)''
   \<and> (case runtime_prepare [user_alias_key] of
         Inl e \<Rightarrow> False
       | Inr st \<Rightarrow>
           instructions st ''Alias_00(x)'' = Some user_alias_key
           \<and> instruction_map_insert (instructions st)
                (orphan_press\<lparr>instruction_id := ''Alias_00(x)''\<rparr>) = Inl DuplicateId)"
proof -
  have f0: "format_02d 0 = ''00''"
    by (simp add: format_02d_def decimal.simps digit_char_def)
  have c: "instruction_map_generate_alias 0 ''x'' = Inr (''Alias_00(x)'', 1)"
    by (simp add: instruction_map_generate_alias_def instruction_alias_prefix_def f0)
  have u: "instruction_id user_alias_key = ''Alias_00(x)''"
    by (simp add: user_alias_key_def)
  have d: "(case runtime_prepare [user_alias_key] of
         Inl e \<Rightarrow> False
       | Inr st \<Rightarrow>
           instructions st ''Alias_00(x)'' = Some user_alias_key
           \<and> instruction_map_insert (instructions st)
                (orphan_press\<lparr>instruction_id := ''Alias_00(x)''\<rparr>) = Inl DuplicateId)"
    by (simp add: runtime_prepare_def user_alias_key_def orphan_press_def
          instruction_map_insert_def str_list_insert_str_def try_handle_sub_instruction_def
          Let_def)
  from c u d show ?thesis by simp
qed

end
